theory Spec2Isabelle
  imports Main
begin

section \<open>The synchronisation engine of collab.nvim (go/sync.go)\<close>

text \<open>
  A shallow embedding of the operational-transformation engine. Go values are modelled
  as follows.
  \<^item> A Go \<open>string\<close> is a sequence of bytes: \<open>len\<close> counts bytes and slicing cuts
    at byte offsets, so a string is a \<open>char list\<close>.
  \<^item> \<open>OperationType\<close> is a string type with three named constants.
  \<^item> A \<open>VectorClock\<close> (\<open>map[string]int64\<close>) is an association list whose keys are
    pairwise distinct; the order of the list stands for one of the iteration orders
    Go may choose. Reading a missing key gives 0, as in Go.
  \<^item> Go's \<open>int\<close> is 64 bits wide. \<open>Position\<close> and \<open>Length\<close> are integers and
    every sum or difference the code forms on them is wrapped to the signed 64-bit range.
  \<^item> A method that mutates the manager and returns an \<open>error\<close> becomes a function
    from the manager to a pair of an optional error and the manager it leaves behind:
    what was mutated before the error stays mutated.
  \<^item> The three callbacks only observe; they are not part of the state.
\<close>

subsection \<open>Machine integers\<close>

definition wrap64 :: "int \<Rightarrow> int" where
  "wrap64 x = (x + 2 ^ 63) mod 2 ^ 64 - 2 ^ 63"

definition add64 :: "int \<Rightarrow> int \<Rightarrow> int" where
  "add64 a b = wrap64 (a + b)"

definition sub64 :: "int \<Rightarrow> int \<Rightarrow> int" where
  "sub64 a b = wrap64 (a - b)"

subsection \<open>Vector clocks\<close>

type_synonym VectorClock = "(string \<times> int) list"

text \<open>\<open>vc[userID]\<close>: the stored counter, 0 when the key is missing.\<close>

definition vcGet :: "VectorClock \<Rightarrow> string \<Rightarrow> int" where
  "vcGet vc u = (case map_of vc u of None \<Rightarrow> 0 | Some t \<Rightarrow> t)"

text \<open>\<open>vc[userID] = t\<close>: overwrite the entry of an existing key, add a missing one.\<close>

fun vcPut :: "string \<Rightarrow> int \<Rightarrow> VectorClock \<Rightarrow> VectorClock" where
  "vcPut u t [] = [(u, t)]"
| "vcPut u t ((k, v) # vc) = (if k = u then (k, t) # vc else (k, v) # vcPut u t vc)"

definition Increment :: "VectorClock \<Rightarrow> string \<Rightarrow> VectorClock" where
  "Increment vc userID = vcPut userID (wrap64 (vcGet vc userID + 1)) vc"

fun Update :: "VectorClock \<Rightarrow> VectorClock \<Rightarrow> VectorClock" where
  "Update vc [] = vc"
| "Update vc ((userID, timestamp) # other) =
     Update (if vcGet vc userID < timestamp then vcPut userID timestamp vc else vc) other"

text \<open>
  The two loops of \<open>HappensBefore\<close>. \<open>None\<close> is the early \<open>return false\<close>; otherwise
  the loop hands on the flag \<open>hasSmaller\<close>.
\<close>

fun hbFirstLoop :: "VectorClock \<Rightarrow> VectorClock \<Rightarrow> bool \<Rightarrow> bool option" where
  "hbFirstLoop [] other hasSmaller = Some hasSmaller"
| "hbFirstLoop ((userID, timestamp) # vc) other hasSmaller =
     (let otherTimestamp = vcGet other userID in
      if timestamp > otherTimestamp then None
      else hbFirstLoop vc other (if timestamp < otherTimestamp then True else hasSmaller))"

fun hbSecondLoop :: "VectorClock \<Rightarrow> VectorClock \<Rightarrow> bool \<Rightarrow> bool option" where
  "hbSecondLoop [] vc hasSmaller = Some hasSmaller"
| "hbSecondLoop ((userID, otherTimestamp) # other) vc hasSmaller =
     (let timestamp = vcGet vc userID in
      if timestamp > otherTimestamp then None
      else hbSecondLoop other vc (if timestamp < otherTimestamp then True else hasSmaller))"

definition HappensBefore :: "VectorClock \<Rightarrow> VectorClock \<Rightarrow> bool" where
  "HappensBefore vc other =
     (case hbFirstLoop vc other False of
        None \<Rightarrow> False
      | Some hasSmaller \<Rightarrow>
          (case hbSecondLoop other vc hasSmaller of
             None \<Rightarrow> False
           | Some hasSmaller' \<Rightarrow> hasSmaller'))"

text \<open>
  \<open>Equals\<close>: when the two maps differ in size every key of either map is compared
  (missing entries read as 0); when they have the same size only the keys of the
  receiver are looked at.
\<close>

definition Equals :: "VectorClock \<Rightarrow> VectorClock \<Rightarrow> bool" where
  "Equals vc other =
     (if length vc \<noteq> length other
      then list_all (\<lambda>userID. vcGet vc userID = vcGet other userID) (map fst vc @ map fst other)
      else list_all (\<lambda>(userID, timestamp). vcGet other userID = timestamp) vc)"

definition IsConcurrent :: "VectorClock \<Rightarrow> VectorClock \<Rightarrow> bool" where
  "IsConcurrent vc other =
     (\<not> HappensBefore vc other \<and> \<not> HappensBefore other vc \<and> \<not> Equals vc other)"

subsection \<open>Operations\<close>

type_synonym OperationType = string

definition OpInsert :: OperationType where "OpInsert = ''insert''"
definition OpDelete :: OperationType where "OpDelete = ''delete''"
definition OpRetain :: OperationType where "OpRetain = ''retain''"

record Operation =
  Type :: OperationType
  Position :: int
  Content :: string
  Length :: int
  UserID :: string
  Timestamp :: int
  ID :: string
  VectorClock :: VectorClock

subsection \<open>The four pairwise inclusion transforms\<close>

definition transformInsertInsert :: "Operation \<Rightarrow> Operation \<Rightarrow> bool \<Rightarrow> Operation" where
  "transformInsertInsert op1 op2 op1HasPriority =
     (if Position op2 < Position op1
      then \<lparr>Type = Type op1, Position = add64 (Position op1) (Length op2),
            Content = Content op1, Length = Length op1, UserID = UserID op1,
            Timestamp = Timestamp op1, ID = ID op1, VectorClock = VectorClock op1\<rparr>
      else if Position op2 = Position op1
      then (if op1HasPriority then op1
            else \<lparr>Type = Type op1, Position = add64 (Position op1) (Length op2),
                  Content = Content op1, Length = Length op1, UserID = UserID op1,
                  Timestamp = Timestamp op1, ID = ID op1, VectorClock = VectorClock op1\<rparr>)
      else op1)"

definition transformInsertDelete :: "Operation \<Rightarrow> Operation \<Rightarrow> Operation" where
  "transformInsertDelete op1 op2 =
     (if Position op2 \<le> Position op1
      then (if add64 (Position op2) (Length op2) \<le> Position op1
            then \<lparr>Type = Type op1, Position = sub64 (Position op1) (Length op2),
                  Content = Content op1, Length = Length op1, UserID = UserID op1,
                  Timestamp = Timestamp op1, ID = ID op1, VectorClock = VectorClock op1\<rparr>
            else \<lparr>Type = Type op1, Position = Position op2,
                  Content = Content op1, Length = Length op1, UserID = UserID op1,
                  Timestamp = Timestamp op1, ID = ID op1, VectorClock = VectorClock op1\<rparr>)
      else op1)"

definition transformDeleteInsert :: "Operation \<Rightarrow> Operation \<Rightarrow> Operation" where
  "transformDeleteInsert op1 op2 =
     (if Position op2 \<le> Position op1
      then \<lparr>Type = Type op1, Position = add64 (Position op1) (Length op2),
            Content = Content op1, Length = Length op1, UserID = UserID op1,
            Timestamp = Timestamp op1, ID = ID op1, VectorClock = VectorClock op1\<rparr>
      else if Position op2 < add64 (Position op1) (Length op1)
      then \<lparr>Type = Type op1, Position = Position op1,
            Content = Content op1, Length = add64 (Length op1) (Length op2), UserID = UserID op1,
            Timestamp = Timestamp op1, ID = ID op1, VectorClock = VectorClock op1\<rparr>
      else op1)"

definition transformDeleteDelete :: "Operation \<Rightarrow> Operation \<Rightarrow> bool \<Rightarrow> Operation" where
  "transformDeleteDelete op1 op2 op1HasPriority =
     (if add64 (Position op2) (Length op2) \<le> Position op1
      then \<lparr>Type = Type op1, Position = sub64 (Position op1) (Length op2),
            Content = Content op1, Length = Length op1, UserID = UserID op1,
            Timestamp = Timestamp op1, ID = ID op1, VectorClock = VectorClock op1\<rparr>
      else if add64 (Position op1) (Length op1) \<le> Position op2
      then op1
      else
        (let start1 = Position op1; end1 = add64 (Position op1) (Length op1);
             start2 = Position op2; end2 = add64 (Position op2) (Length op2)
         in if start2 \<le> start1 \<and> end2 \<ge> end1
            then \<lparr>Type = Type op1, Position = start2,
                  Content = [], Length = 0, UserID = UserID op1,
                  Timestamp = Timestamp op1, ID = ID op1, VectorClock = VectorClock op1\<rparr>
            else if start1 \<le> start2 \<and> end1 \<ge> end2
            then \<lparr>Type = Type op1, Position = Position op1,
                  Content = Content op1, Length = sub64 (Length op1) (Length op2),
                  UserID = UserID op1,
                  Timestamp = Timestamp op1, ID = ID op1, VectorClock = VectorClock op1\<rparr>
            else
              (let (newStart, newLength) =
                     (if start2 < start1
                      then (let overlap = sub64 end2 start1
                            in (start2, sub64 (Length op1) overlap))
                      else (let overlap = sub64 end1 start2
                            in (start1, sub64 (Length op1) overlap)));
                   newLength = (if newLength < 0 then 0 else newLength)
               in \<lparr>Type = Type op1, Position = newStart,
                    Content = Content op1, Length = newLength, UserID = UserID op1,
                    Timestamp = Timestamp op1, ID = ID op1, VectorClock = VectorClock op1\<rparr>)))"

definition inclusionTransform :: "Operation \<Rightarrow> Operation \<Rightarrow> bool \<Rightarrow> Operation" where
  "inclusionTransform op1 op2 op1HasPriority =
     (if Type op1 = OpInsert \<and> Type op2 = OpInsert then transformInsertInsert op1 op2 op1HasPriority
      else if Type op1 = OpInsert \<and> Type op2 = OpDelete then transformInsertDelete op1 op2
      else if Type op1 = OpDelete \<and> Type op2 = OpInsert then transformDeleteInsert op1 op2
      else if Type op1 = OpDelete \<and> Type op2 = OpDelete then transformDeleteDelete op1 op2 op1HasPriority
      else op1)"

subsection \<open>Errors\<close>

text \<open>
  The code builds its errors with \<open>fmt.Errorf\<close>. The two errors raised in
  \<open>applyOperationToDocument\<close> carry the offending position with the document length, and
  the unknown type; the callers wrap them with a prefix that names the failing step.
\<close>

datatype error =
    InvalidInsertPosition int int
  | UnknownOperationType OperationType
  | FailedLocal error
  | FailedTransformedRemote error
  | FailedReapplyLocal error
  | FailedReapplyDuringUndo error
  | FailedUndo error
  | FailedTransformation error

subsection \<open>Document state and manager\<close>

text \<open>
  The fields of \<open>DocumentState\<close> carry the prefix \<open>doc\<close>, since \<open>Content\<close> and
  \<open>VectorClock\<close> already name fields of \<open>Operation\<close>. \<open>Version\<close> is an \<open>int64\<close>
  that is reset with the operation log and incremented once for each entry appended to it;
  a Go slice has fewer than \<open>2^63\<close> entries, so the increment is modelled without
  wrap-around.
\<close>

record DocumentState =
  docContent :: string
  docVersion :: int
  docOperations :: "Operation list"
  docVectorClock :: VectorClock

record SyncManager =
  document :: DocumentState
  userID :: string
  vectorClock :: VectorClock
  localBuffer :: "Operation list"
  remoteBuffer :: "Operation list"
  acknowledgedOps :: "string set"
  stateVector :: VectorClock
  operationHistory :: "Operation list"
  maxHistorySize :: int

definition NewSyncManager :: SyncManager where
  "NewSyncManager =
     \<lparr>document = \<lparr>docContent = [], docVersion = 0, docOperations = [], docVectorClock = []\<rparr>,
      userID = [], vectorClock = [], localBuffer = [], remoteBuffer = [],
      acknowledgedOps = {}, stateVector = [], operationHistory = [], maxHistorySize = 1000\<rparr>"

definition SetUserID :: "SyncManager \<Rightarrow> string \<Rightarrow> SyncManager" where
  "SetUserID sm uid =
     sm\<lparr>userID := uid, vectorClock := vcPut uid 0 (vectorClock sm),
        stateVector := vcPut uid 0 (stateVector sm)\<rparr>"

definition InitializeDocument :: "SyncManager \<Rightarrow> string \<Rightarrow> SyncManager" where
  "InitializeDocument sm content =
     sm\<lparr>document := \<lparr>docContent = content, docVersion = 0, docOperations = [],
                       docVectorClock = []\<rparr>,
        vectorClock := vcPut (userID sm) 0 []\<rparr>"

text \<open>
  The tail shared by the two successful branches of \<open>applyOperationToDocument\<close> and by
  \<open>applyOperationDirectly\<close>: store the new content, increment the version, merge the
  operation's clock, append the operation to the log.
\<close>

definition recordApplied :: "DocumentState \<Rightarrow> string \<Rightarrow> Operation \<Rightarrow> DocumentState" where
  "recordApplied doc newContent op =
     \<lparr>docContent = newContent, docVersion = docVersion doc + 1,
      docOperations = docOperations doc @ [op],
      docVectorClock = Update (docVectorClock doc) (VectorClock op)\<rparr>"

definition applyOperationToDocument :: "SyncManager \<Rightarrow> Operation \<Rightarrow> error option \<times> SyncManager" where
  "applyOperationToDocument sm op =
     (let doc = document sm; content = docContent doc; n = int (length content) in
      if Type op = OpInsert then
        (if Position op < 0 \<or> Position op > n
         then (Some (InvalidInsertPosition (Position op) n), sm)
         else (None, sm\<lparr>document := recordApplied doc
                 (take (nat (Position op)) content @ Content op @ drop (nat (Position op)) content)
                 op\<rparr>))
      else if Type op = OpDelete then
        (if Position op < 0 \<or> Position op \<ge> n then (None, sm)
         else
           (let endPos = add64 (Position op) (Length op);
                endPos = (if endPos > n then n else endPos)
            in if endPos \<le> Position op then (None, sm)
               else (None, sm\<lparr>document := recordApplied doc
                       (take (nat (Position op)) content @ drop (nat endPos) content) op\<rparr>)))
      else (Some (UnknownOperationType (Type op)), sm))"

definition applyOperationDirectly :: "SyncManager \<Rightarrow> Operation \<Rightarrow> error option \<times> SyncManager" where
  "applyOperationDirectly sm op =
     (let doc = document sm; content = docContent doc; n = int (length content);
          newContent =
            (if Type op = OpInsert then
               (if Position op \<ge> 0 \<and> Position op \<le> n
                then take (nat (Position op)) content @ Content op @ drop (nat (Position op)) content
                else content)
             else if Type op = OpDelete then
               (if Position op \<ge> 0 \<and> Position op < n
                then (let endPos = add64 (Position op) (Length op);
                          endPos = (if endPos > n then n else endPos)
                      in if endPos > Position op
                         then take (nat (Position op)) content @ drop (nat endPos) content
                         else content)
                else content)
             else content)
      in (None, sm\<lparr>document := recordApplied doc newContent op\<rparr>))"

text \<open>A loop that applies operations in order and stops at the first error.\<close>

fun applyEach :: "(SyncManager \<Rightarrow> Operation \<Rightarrow> error option \<times> SyncManager) \<Rightarrow>
    SyncManager \<Rightarrow> Operation list \<Rightarrow> error option \<times> SyncManager" where
  "applyEach f sm [] = (None, sm)"
| "applyEach f sm (op # ops) =
     (case f sm op of
        (Some err, sm') \<Rightarrow> (Some err, sm')
      | (None, sm') \<Rightarrow> applyEach f sm' ops)"

definition undoLocalOperations :: "SyncManager \<Rightarrow> Operation list \<Rightarrow> error option \<times> SyncManager" where
  "undoLocalOperations sm operations =
     (let localOpIDs = set (map ID operations);
          remainingOps = filter (\<lambda>op. ID op \<notin> localOpIDs) (docOperations (document sm));
          sm0 = sm\<lparr>document := (document sm)\<lparr>docContent := [], docVersion := 0,
                                                docOperations := []\<rparr>\<rparr>
      in case applyEach applyOperationDirectly sm0 remainingOps of
           (Some err, sm') \<Rightarrow> (Some (FailedReapplyDuringUndo err), sm')
         | (None, sm') \<Rightarrow> (None, sm'))"

definition addToHistory :: "SyncManager \<Rightarrow> Operation \<Rightarrow> SyncManager" where
  "addToHistory sm op =
     (let h = operationHistory sm;
          h = (if int (length h) \<ge> maxHistorySize sm then drop (length h div 2) h else h)
      in sm\<lparr>operationHistory := h @ [op]\<rparr>)"

definition ApplyLocalOperation :: "SyncManager \<Rightarrow> Operation \<Rightarrow> error option \<times> SyncManager" where
  "ApplyLocalOperation sm op =
     (let sm1 = sm\<lparr>localBuffer := localBuffer sm @ [op]\<rparr> in
      case applyOperationToDocument sm1 op of
        (Some err, sm2) \<Rightarrow> (Some (FailedLocal err), sm2)
      | (None, sm2) \<Rightarrow>
          (None, addToHistory (sm2\<lparr>vectorClock := Update (vectorClock sm2) (VectorClock op)\<rparr>) op))"

text \<open>
  \<open>GetOperationsSince\<close>: the loop over the log, which appends the operations whose
  clock neither happens before the given clock nor \<open>Equals\<close> it.
\<close>

fun sinceLoop :: "Operation list \<Rightarrow> VectorClock \<Rightarrow> Operation list \<Rightarrow> Operation list" where
  "sinceLoop [] clock operations = operations"
| "sinceLoop (op # ops) clock operations =
     sinceLoop ops clock
       (if \<not> HappensBefore (VectorClock op) clock \<and> \<not> Equals (VectorClock op) clock
        then operations @ [op] else operations)"

definition GetOperationsSince :: "SyncManager \<Rightarrow> VectorClock \<Rightarrow> Operation list" where
  "GetOperationsSince sm clock = sinceLoop (docOperations (document sm)) clock []"

subsection \<open>Priorities\<close>

text \<open>
  \<open>for _, c := range s\<close> walks the code points of the UTF-8 text in \<open>s\<close>. A byte
  below 128 is its own code point; a well-formed sequence of two, three or four bytes is
  decoded; at any other byte the loop yields \<open>U+FFFD\<close> (65533) and moves on by one byte.
  \<open>decodeRune\<close> returns the code point at the head of a non-empty byte sequence together
  with the number of bytes it takes.
\<close>

definition isContinuation :: "nat \<Rightarrow> bool" where
  "isContinuation b = (128 \<le> b \<and> b < 192)"

definition decodeRune :: "nat list \<Rightarrow> nat \<times> nat" where
  "decodeRune s =
     (case s of
        [] \<Rightarrow> (65533, 1)
      | b0 # t \<Rightarrow>
          if b0 < 128 then (b0, 1)
          else if 192 \<le> b0 \<and> b0 < 224 then
            (case t of
               b1 # _ \<Rightarrow>
                 (let r = (b0 mod 32) * 64 + b1 mod 64
                  in if isContinuation b1 \<and> 127 < r then (r, 2) else (65533, 1))
             | _ \<Rightarrow> (65533, 1))
          else if 224 \<le> b0 \<and> b0 < 240 then
            (case t of
               b1 # b2 # _ \<Rightarrow>
                 (let r = (b0 mod 16) * 4096 + (b1 mod 64) * 64 + b2 mod 64
                  in if isContinuation b1 \<and> isContinuation b2 \<and> 2047 < r \<and>
                        \<not> (55296 \<le> r \<and> r \<le> 57343)
                     then (r, 3) else (65533, 1))
             | _ \<Rightarrow> (65533, 1))
          else if 240 \<le> b0 \<and> b0 < 248 then
            (case t of
               b1 # b2 # b3 # _ \<Rightarrow>
                 (let r = (b0 mod 8) * 262144 + (b1 mod 64) * 4096 + (b2 mod 64) * 64 + b3 mod 64
                  in if isContinuation b1 \<and> isContinuation b2 \<and> isContinuation b3 \<and>
                        65535 < r \<and> r \<le> 1114111
                     then (r, 4) else (65533, 1))
             | _ \<Rightarrow> (65533, 1))
          else (65533, 1))"

fun runesOfBytes :: "nat list \<Rightarrow> nat list" where
  "runesOfBytes [] = []"
| "runesOfBytes (b # bs) =
     (case decodeRune (b # bs) of (r, w) \<Rightarrow> r # runesOfBytes (drop (w - 1) bs))"

definition runes :: "string \<Rightarrow> nat list" where
  "runes s = runesOfBytes (map of_char s)"

text \<open>
  \<open>hashString\<close>: the loop runs on an \<open>int64\<close>, so the shift and both additions wrap,
  and so does the final negation.
\<close>

definition hashStep :: "nat \<Rightarrow> int \<Rightarrow> int" where
  "hashStep c hash = add64 (add64 (wrap64 (hash * 2 ^ 5)) hash) (int c)"

definition hashString :: "string \<Rightarrow> int" where
  "hashString s =
     (let hash = fold hashStep (runes s) 5381
      in if hash < 0 then wrap64 (- hash) else hash)"

definition calculatePriority :: "Operation \<Rightarrow> int" where
  "calculatePriority op = add64 (hashString (UserID op @ ID op)) (Timestamp op)"

subsection \<open>Operational transformation of a remote operation\<close>

text \<open>
  \<open>sort.Slice\<close> belongs to Go's library. The comparison handed to it by
  \<open>topologicalSort\<close> is not a strict weak order in general, so the outcome depends on the
  sorting routine; the model takes the routine as a parameter. On slices of at most
  twelve elements the library runs the insertion sort \<open>insertionSort\<close>: each element in
  turn is swapped towards the front while it is less than its left neighbour.
\<close>

type_synonym sortSlice = "(Operation \<Rightarrow> Operation \<Rightarrow> bool) \<Rightarrow> Operation list \<Rightarrow> Operation list"

text \<open>The sorted prefix is kept reversed: its head is the right-most element.\<close>

fun swapDown :: "(Operation \<Rightarrow> Operation \<Rightarrow> bool) \<Rightarrow> Operation \<Rightarrow> Operation list \<Rightarrow> Operation list" where
  "swapDown lt x [] = [x]"
| "swapDown lt x (y # prefix) =
     (if lt x y then y # swapDown lt x prefix else x # y # prefix)"

definition insertionSort :: sortSlice where
  "insertionSort lt xs = rev (fold (swapDown lt) xs [])"

definition topologicalSort :: "sortSlice \<Rightarrow> Operation list \<Rightarrow> Operation list" where
  "topologicalSort srt operations =
     srt (\<lambda>op1 op2.
            if HappensBefore (VectorClock op1) (VectorClock op2) then True
            else if HappensBefore (VectorClock op2) (VectorClock op1) then False
            else calculatePriority op1 < calculatePriority op2)
         operations"

text \<open>
  The search through \<open>transformedLocalOps\<close>: the first entry with the given id is
  replaced by its transform, and the search stops there.
\<close>

fun transformLocal :: "string \<Rightarrow> (Operation \<Rightarrow> Operation) \<Rightarrow> Operation list \<Rightarrow> Operation list" where
  "transformLocal opID f [] = []"
| "transformLocal opID f (localOp # rest) =
     (if ID localOp = opID then f localOp # rest else localOp # transformLocal opID f rest)"

text \<open>
  The block that occurs four times in \<open>performOperationalTransformation\<close>: transform
  \<open>target\<close> against \<open>against\<close>, in \<open>transformedRemoteOp\<close> when \<open>target\<close> has the
  id of the remote operation, in the list of local operations otherwise.
\<close>

definition transformTarget ::
    "Operation \<Rightarrow> Operation \<Rightarrow> Operation \<Rightarrow> bool \<Rightarrow> Operation \<times> Operation list \<Rightarrow> Operation \<times> Operation list" where
  "transformTarget remoteOp target against targetHasPriority st =
     (case st of (transformedRemoteOp, transformedLocalOps) \<Rightarrow>
        if ID target = ID remoteOp
        then (inclusionTransform transformedRemoteOp against targetHasPriority, transformedLocalOps)
        else (transformedRemoteOp,
              transformLocal (ID target)
                (\<lambda>localOp. inclusionTransform localOp against targetHasPriority) transformedLocalOps))"

definition transformPair ::
    "Operation \<Rightarrow> Operation \<Rightarrow> Operation \<Rightarrow> Operation \<times> Operation list \<Rightarrow> Operation \<times> Operation list" where
  "transformPair remoteOp op1 op2 st =
     (if HappensBefore (VectorClock op1) (VectorClock op2)
      then transformTarget remoteOp op2 op1 False st
      else if HappensBefore (VectorClock op2) (VectorClock op1)
      then transformTarget remoteOp op1 op2 True st
      else if IsConcurrent (VectorClock op1) (VectorClock op2)
      then (if calculatePriority op1 < calculatePriority op2
            then transformTarget remoteOp op2 op1 False st
            else transformTarget remoteOp op1 op2 True st)
      else st)"

fun transformPairs ::
    "Operation \<Rightarrow> Operation list \<Rightarrow> Operation \<times> Operation list \<Rightarrow> Operation \<times> Operation list" where
  "transformPairs remoteOp [] st = st"
| "transformPairs remoteOp (op1 # later) st =
     transformPairs remoteOp later (fold (transformPair remoteOp op1) later st)"

definition performOperationalTransformation ::
    "sortSlice \<Rightarrow> Operation \<Rightarrow> Operation list \<Rightarrow> Operation \<times> Operation list \<times> error option" where
  "performOperationalTransformation srt remoteOp localOps =
     (let sortedOps = topologicalSort srt (remoteOp # localOps)
      in case transformPairs remoteOp sortedOps (remoteOp, localOps) of
           (transformedRemoteOp, transformedLocalOps) \<Rightarrow>
             (transformedRemoteOp, transformedLocalOps, None))"

definition ApplyRemoteOperation ::
    "sortSlice \<Rightarrow> SyncManager \<Rightarrow> Operation \<Rightarrow> error option \<times> SyncManager" where
  "ApplyRemoteOperation srt sm remoteOp =
     (let sm1 = sm\<lparr>remoteBuffer := remoteBuffer sm @ [remoteOp]\<rparr>;
          sm2 = sm1\<lparr>vectorClock := Update (vectorClock sm1) (VectorClock remoteOp)\<rparr>;
          localOps = localBuffer sm2
      in case performOperationalTransformation srt remoteOp localOps of
           (transformedOp, transformedLocalOps, Some err) \<Rightarrow> (Some (FailedTransformation err), sm2)
         | (transformedOp, transformedLocalOps, None) \<Rightarrow>
             (case undoLocalOperations sm2 localOps of
                (Some err, sm3) \<Rightarrow> (Some (FailedUndo err), sm3)
              | (None, sm3) \<Rightarrow>
                  (case applyOperationToDocument sm3 transformedOp of
                     (Some err, sm4) \<Rightarrow> (Some (FailedTransformedRemote err), sm4)
                   | (None, sm4) \<Rightarrow>
                       (case applyEach applyOperationToDocument sm4 transformedLocalOps of
                          (Some err, sm5) \<Rightarrow> (Some (FailedReapplyLocal err), sm5)
                        | (None, sm5) \<Rightarrow>
                            (None, addToHistory (sm5\<lparr>localBuffer := transformedLocalOps\<rparr>)
                                     transformedOp)))))"

text \<open>
  The remaining public methods that change the manager. \<open>CreateInsertOperation\<close> and
  \<open>CreateDeleteOperation\<close> stamp the new operation with the wall clock and a random
  id; their only effect on the manager is the increment of its own clock entry.
\<close>

definition CreateOperation :: "SyncManager \<Rightarrow> SyncManager" where
  "CreateOperation sm = sm\<lparr>vectorClock := Increment (vectorClock sm) (userID sm)\<rparr>"

definition AcknowledgeOperation :: "SyncManager \<Rightarrow> string \<Rightarrow> SyncManager" where
  "AcknowledgeOperation sm opID = sm\<lparr>acknowledgedOps := insert opID (acknowledgedOps sm)\<rparr>"

definition CleanupHistory :: "SyncManager \<Rightarrow> SyncManager" where
  "CleanupHistory sm =
     (let localOps = localBuffer sm;
          acknowledgedLocal = filter (\<lambda>op. ID op \<in> acknowledgedOps sm) localOps;
          appliedSet = set (map ID acknowledgedLocal)
      in sm\<lparr>localBuffer := filter (\<lambda>op. ID op \<notin> appliedSet) localOps,
            acknowledgedOps := {opID \<in> acknowledgedOps sm. opID \<in> set (map ID localOps)}\<rparr>)"

text \<open>The managers that a sequence of public calls can produce from a new one.\<close>

inductive reachable :: "sortSlice \<Rightarrow> SyncManager \<Rightarrow> bool" for srt :: sortSlice where
  reachable_new: "reachable srt NewSyncManager"
| reachable_user: "reachable srt sm \<Longrightarrow> reachable srt (SetUserID sm uid)"
| reachable_init: "reachable srt sm \<Longrightarrow> reachable srt (InitializeDocument sm content)"
| reachable_create: "reachable srt sm \<Longrightarrow> reachable srt (CreateOperation sm)"
| reachable_local: "reachable srt sm \<Longrightarrow> reachable srt (snd (ApplyLocalOperation sm op))"
| reachable_remote: "reachable srt sm \<Longrightarrow> reachable srt (snd (ApplyRemoteOperation srt sm op))"
| reachable_ack: "reachable srt sm \<Longrightarrow> reachable srt (AcknowledgeOperation sm opID)"
| reachable_cleanup: "reachable srt sm \<Longrightarrow> reachable srt (CleanupHistory sm)"

section \<open>Notions used to state the properties\<close>

text \<open>
  Two delete ranges as the code computes them in \<open>transformDeleteDelete\<close>: the ranges
  overlap (neither lies wholly before the other) and the range of \<open>against\<close>
  contains the range of \<open>op\<close>. This is the condition of the branch that empties \<open>op\<close>.
\<close>

definition coveredBy :: "Operation \<Rightarrow> Operation \<Rightarrow> bool" where
  "coveredBy op against =
     (let start1 = Position op; end1 = add64 (Position op) (Length op);
          start2 = Position against; end2 = add64 (Position against) (Length against)
      in \<not> end2 \<le> start1 \<and> \<not> end1 \<le> start2 \<and> start2 \<le> start1 \<and> end1 \<le> end2)"

text \<open>
  The componentwise order and equality of two clocks, on the keys of either clock, a
  missing entry reading as 0.
\<close>

definition causallyLE :: "VectorClock \<Rightarrow> VectorClock \<Rightarrow> bool" where
  "causallyLE a b = list_all (\<lambda>p. vcGet a p \<le> vcGet b p) (map fst a @ map fst b)"

definition sameClock :: "VectorClock \<Rightarrow> VectorClock \<Rightarrow> bool" where
  "sameClock a b = list_all (\<lambda>p. vcGet a p = vcGet b p) (map fst a @ map fst b)"

text \<open>
  A well-formed clock: it is a map (no key occurs twice) and its counters are not
  negative.
\<close>

definition wellFormedClock :: "VectorClock \<Rightarrow> bool" where
  "wellFormedClock vc = (distinct (map fst vc) \<and> list_all (\<lambda>(p, t). 0 \<le> t) vc)"

definition versionMatchesLog :: "DocumentState \<Rightarrow> bool" where
  "versionMatchesLog doc = (docVersion doc = int (length (docOperations doc)))"

text \<open>
  The first two steps of \<open>ApplyRemoteOperation\<close> (stage the operation, merge its
  clock), and what \<open>undoLocalOperations\<close> makes of a manager with nothing pending:
  the document rebuilt from the whole log.
\<close>

definition stageRemote :: "SyncManager \<Rightarrow> Operation \<Rightarrow> SyncManager" where
  "stageRemote sm r = sm\<lparr>remoteBuffer := remoteBuffer sm @ [r],
     vectorClock := Update (vectorClock sm) (VectorClock r)\<rparr>"

definition replayLog :: "SyncManager \<Rightarrow> SyncManager" where
  "replayLog sm =
     snd (applyEach applyOperationDirectly
            (sm\<lparr>document := (document sm)\<lparr>docContent := [], docVersion := 0, docOperations := []\<rparr>\<rparr>)
            (docOperations (document sm)))"

text \<open>
  What the transformation of a remote operation keeps: the type of the remote operation
  and the number of pending local operations.
\<close>

definition sameShape :: "Operation \<Rightarrow> nat \<Rightarrow> Operation \<times> Operation list \<Rightarrow> bool" where
  "sameShape r n st = (Type (fst st) = Type r \<and> length (snd st) = n)"

text \<open>
  The djb2 hash without any bound on the integers: start from 5381, then
  \<open>h := 33 * h + c\<close> for each code point \<open>c\<close>.
\<close>

definition djb2 :: "nat list \<Rightarrow> int" where
  "djb2 cs = fold (\<lambda>c h. h * 33 + int c) cs 5381"

text \<open>
  The priority as the specification words it: the 32-bit djb2 hash of the user id followed
  by the operation id, read as a 64-bit integer, plus the wall time.
\<close>

definition specHash32 :: "string \<Rightarrow> int" where
  "specHash32 s = fold (\<lambda>c h. (h * 33 + int c) mod 2 ^ 32) (runes s) 5381"

definition specPriority :: "Operation \<Rightarrow> int" where
  "specPriority op = specHash32 (UserID op @ ID op) + Timestamp op"

text \<open>
  For the diamond property. \<open>applyText S op\<close> is the content that
  \<open>applyOperationToDocument\<close> leaves when the document holds \<open>S\<close>. An operation is
  valid on \<open>S\<close> when it is an insert inside \<open>S\<close> whose length is the length of its
  content, or a delete whose range lies inside \<open>S\<close>. An insert is strictly inside a
  delete when its position is after the first and before the last deleted character.
  \<open>fits\<close> bounds the length of the text with both contents inserted by the largest
  \<open>int\<close>.
\<close>

definition applyText :: "string \<Rightarrow> Operation \<Rightarrow> string" where
  "applyText S op =
     docContent (document (snd (applyOperationToDocument (InitializeDocument NewSyncManager S) op)))"

definition validOn :: "string \<Rightarrow> Operation \<Rightarrow> bool" where
  "validOn S op =
     (0 \<le> Position op \<and>
      (if Type op = OpInsert
       then Position op \<le> int (length S) \<and> Length op = int (length (Content op))
       else Type op = OpDelete \<and> 0 \<le> Length op \<and>
            Position op + Length op \<le> int (length S)))"

definition strictlyInside :: "Operation \<Rightarrow> Operation \<Rightarrow> bool" where
  "strictlyInside ins del =
     (Type ins = OpInsert \<and> Type del = OpDelete \<and>
      Position del < Position ins \<and> Position ins < Position del + Length del)"

definition fits :: "string \<Rightarrow> Operation \<Rightarrow> Operation \<Rightarrow> bool" where
  "fits S a b = (int (length S) + int (length (Content a)) + int (length (Content b)) < 2 ^ 63)"

definition insertAt :: "nat \<Rightarrow> string \<Rightarrow> string \<Rightarrow> string" where
  "insertAt i c S = take i S @ c @ drop i S"

definition deleteAt :: "nat \<Rightarrow> nat \<Rightarrow> string \<Rightarrow> string" where
  "deleteAt i l S = take i S @ drop (i + l) S"

section \<open>Example managers and operations\<close>

definition exManager :: SyncManager where
  "exManager = SetUserID NewSyncManager ''u1''"

definition exDocument :: SyncManager where
  "exDocument = InitializeDocument exManager ''abc''"

definition exDeletePastEnd :: Operation where
  "exDeletePastEnd = \<lparr>Type = OpDelete, Position = 5, Content = [], Length = 1, UserID = ''u1'',
     Timestamp = 1, ID = ''u1-1'', VectorClock = [(''u1'', 1)]\<rparr>"

definition exInsertPastEnd :: Operation where
  "exInsertPastEnd = \<lparr>Type = OpInsert, Position = 5, Content = ''x'', Length = 1, UserID = ''u1'',
     Timestamp = 1, ID = ''u1-1'', VectorClock = [(''u1'', 1)]\<rparr>"

definition exDeleteInner :: Operation where
  "exDeleteInner = \<lparr>Type = OpDelete, Position = 3, Content = ''34'', Length = 2, UserID = ''u1'',
     Timestamp = 1, ID = ''u1-1'', VectorClock = [(''u1'', 1)]\<rparr>"

definition exDeleteOuter :: Operation where
  "exDeleteOuter = \<lparr>Type = OpDelete, Position = 2, Content = ''2345'', Length = 4, UserID = ''u2'',
     Timestamp = 2, ID = ''u2-2'', VectorClock = [(''u2'', 1)]\<rparr>"

definition exInsertA :: Operation where
  "exInsertA = \<lparr>Type = OpInsert, Position = 0, Content = ''A'', Length = 1, UserID = ''u1'',
     Timestamp = 1, ID = ''u1-1'', VectorClock = [(''u1'', 1)]\<rparr>"

definition exInsertB :: Operation where
  "exInsertB = \<lparr>Type = OpInsert, Position = 1, Content = ''B'', Length = 1, UserID = ''u1'',
     Timestamp = 2, ID = ''u1-2'', VectorClock = [(''u1'', 2)]\<rparr>"

definition exTwoInserts :: SyncManager where
  "exTwoInserts = snd (ApplyLocalOperation (snd (ApplyLocalOperation exManager exInsertA)) exInsertB)"

text \<open>
  A session in which the operations carry no vector clock, as the operations built by the
  message handler of the host process do.
\<close>

definition exRemoteInsertABC :: Operation where
  "exRemoteInsertABC = \<lparr>Type = OpInsert, Position = 0, Content = ''abc'', Length = 3, UserID = ''u2'',
     Timestamp = 10, ID = ''u2-10'', VectorClock = []\<rparr>"

definition exLocalDeleteFirst :: Operation where
  "exLocalDeleteFirst = \<lparr>Type = OpDelete, Position = 0, Content = ''a'', Length = 1, UserID = ''u1'',
     Timestamp = 20, ID = ''u1-20'', VectorClock = []\<rparr>"

definition exLocalDeleteSecond :: Operation where
  "exLocalDeleteSecond = \<lparr>Type = OpDelete, Position = 0, Content = ''b'', Length = 1, UserID = ''u1'',
     Timestamp = 30, ID = ''u1-30'', VectorClock = []\<rparr>"

definition exRemoteDeleteAll :: Operation where
  "exRemoteDeleteAll = \<lparr>Type = OpDelete, Position = 0, Content = ''abc'', Length = 3, UserID = ''u2'',
     Timestamp = 40, ID = ''u2-40'', VectorClock = []\<rparr>"

definition exAfterRemoteInsert :: SyncManager where
  "exAfterRemoteInsert = snd (ApplyRemoteOperation insertionSort exManager exRemoteInsertABC)"

definition exAfterLocalDeletes :: SyncManager where
  "exAfterLocalDeletes =
     snd (ApplyLocalOperation (snd (ApplyLocalOperation exAfterRemoteInsert exLocalDeleteFirst))
            exLocalDeleteSecond)"

definition exRemoteInsertA :: Operation where
  "exRemoteInsertA = \<lparr>Type = OpInsert, Position = 0, Content = ''A'', Length = 1, UserID = ''u2'',
     Timestamp = 5, ID = ''u2-5'', VectorClock = [(''u2'', 1)]\<rparr>"

definition exAfterFirstDelivery :: SyncManager where
  "exAfterFirstDelivery = snd (ApplyRemoteOperation insertionSort exManager exRemoteInsertA)"

definition exRemoteInsertFar :: Operation where
  "exRemoteInsertFar = \<lparr>Type = OpInsert, Position = 7, Content = ''x'', Length = 1, UserID = ''u2'',
     Timestamp = 50, ID = ''u2-50'', VectorClock = []\<rparr>"

definition exRemoteDeleteFar :: Operation where
  "exRemoteDeleteFar = \<lparr>Type = OpDelete, Position = 7, Content = [], Length = 1, UserID = ''u2'',
     Timestamp = 50, ID = ''u2-50'', VectorClock = []\<rparr>"

definition exShortIds :: Operation where
  "exShortIds = \<lparr>Type = OpInsert, Position = 0, Content = ''A'', Length = 1, UserID = ''u1'',
     Timestamp = 0, ID = ''o1'', VectorClock = [(''u1'', 1)]\<rparr>"

text \<open>
  Two concurrent inserts at the same position whose priorities are equal
  (\<open>5863819 + 34 = 5863853 + 0\<close>).
\<close>

definition exTieFirst :: Operation where
  "exTieFirst = \<lparr>Type = OpInsert, Position = 0, Content = ''A'', Length = 1, UserID = ''u'',
     Timestamp = 34, ID = ''1'', VectorClock = [(''u'', 1)]\<rparr>"

definition exTieSecond :: Operation where
  "exTieSecond = \<lparr>Type = OpInsert, Position = 0, Content = ''B'', Length = 1, UserID = ''v'',
     Timestamp = 0, ID = ''2'', VectorClock = [(''v'', 1)]\<rparr>"

text \<open>
  The fourth end-to-end scenario of the specification: on \<open>abcdefg\<close> one participant
  deletes \<open>bcde\<close> while another inserts \<open>X\<close> at position 3.
\<close>

definition exAbcdefg :: SyncManager where
  "exAbcdefg = InitializeDocument exManager ''abcdefg''"

definition exInsertX :: Operation where
  "exInsertX = \<lparr>Type = OpInsert, Position = 3, Content = ''X'', Length = 1, UserID = ''u2'',
     Timestamp = 2, ID = ''u2-2'', VectorClock = [(''u2'', 1)]\<rparr>"

definition exDeleteBCDE :: Operation where
  "exDeleteBCDE = \<lparr>Type = OpDelete, Position = 1, Content = ''bcde'', Length = 4, UserID = ''u1'',
     Timestamp = 1, ID = ''u1-1'', VectorClock = [(''u1'', 1)]\<rparr>"

section \<open>Properties\<close>

lemmas ex_defs = exManager_def exDocument_def exDeletePastEnd_def exInsertPastEnd_def
  exDeleteInner_def exDeleteOuter_def exInsertA_def exInsertB_def exTwoInserts_def
  NewSyncManager_def SetUserID_def InitializeDocument_def OpInsert_def OpDelete_def OpRetain_def

subsection \<open>Applying a local operation\<close>

lemma OpInsert_neq_OpDelete: "OpInsert \<noteq> OpDelete"
  by (simp add: OpInsert_def OpDelete_def)

lemma applyOperationToDocument_error:
  "fst (applyOperationToDocument sm op) =
     (if Type op = OpInsert then
        (if Position op < 0 \<or> int (length (docContent (document sm))) < Position op
         then Some (InvalidInsertPosition (Position op) (int (length (docContent (document sm)))))
         else None)
      else if Type op = OpDelete then None
      else Some (UnknownOperationType (Type op)))"
  by (simp add: applyOperationToDocument_def Let_def)

lemma applyOperationToDocument_error_state:
  "fst (applyOperationToDocument sm op) \<noteq> None \<Longrightarrow> snd (applyOperationToDocument sm op) = sm"
  by (auto simp: applyOperationToDocument_def Let_def split: if_splits)

lemma ApplyLocalOperation_error:
  "fst (ApplyLocalOperation sm op) =
     map_option FailedLocal (fst (applyOperationToDocument (sm\<lparr>localBuffer := localBuffer sm @ [op]\<rparr>) op))"
  by (simp add: ApplyLocalOperation_def Let_def split: prod.splits option.splits)

text \<open>
  Claim C10. \<open>ApplyLocalOperation\<close> appends the operation to the local pending buffer
  before it tries to apply it. The apply step fails exactly for an insert whose position
  is outside the document and for an operation that is neither an insert nor a delete
  (such as a retain); the call then returns the error, and the manager it leaves behind
  differs from the one it started with in the pending buffer only, which has the operation
  at its end: the clock, the document and the history are as before.
\<close>

theorem ApplyLocalOperation_failure_keeps_pending:
  "(fst (ApplyLocalOperation sm op) \<noteq> None \<longleftrightarrow>
      (Type op = OpInsert \<and>
         (Position op < 0 \<or> int (length (docContent (document sm))) < Position op)) \<or>
      (Type op \<noteq> OpInsert \<and> Type op \<noteq> OpDelete)) \<and>
   (fst (ApplyLocalOperation sm op) \<noteq> None \<longrightarrow>
      snd (ApplyLocalOperation sm op) = sm\<lparr>localBuffer := localBuffer sm @ [op]\<rparr>)"
proof -
  let ?sm1 = "sm\<lparr>localBuffer := localBuffer sm @ [op]\<rparr>"
  have e: "fst (ApplyLocalOperation sm op) = map_option FailedLocal (fst (applyOperationToDocument ?sm1 op))"
    by (rule ApplyLocalOperation_error)
  have c: "docContent (document ?sm1) = docContent (document sm)" by simp
  have first: "fst (ApplyLocalOperation sm op) \<noteq> None \<longleftrightarrow>
      (Type op = OpInsert \<and>
         (Position op < 0 \<or> int (length (docContent (document sm))) < Position op)) \<or>
      (Type op \<noteq> OpInsert \<and> Type op \<noteq> OpDelete)"
    unfolding e applyOperationToDocument_error c
    using OpInsert_neq_OpDelete by auto
  have second: "snd (ApplyLocalOperation sm op) = ?sm1" if "fst (ApplyLocalOperation sm op) \<noteq> None"
  proof -
    from that e have "fst (applyOperationToDocument ?sm1 op) \<noteq> None" by auto
    then have "snd (applyOperationToDocument ?sm1 op) = ?sm1"
      by (rule applyOperationToDocument_error_state)
    with that show ?thesis
      by (auto simp: ApplyLocalOperation_def Let_def split: prod.splits option.splits)
  qed
  from first second show ?thesis by blast
qed

theorem ApplyLocalOperation_failure_keeps_pending_witness:
  "fst (ApplyLocalOperation exDocument exInsertPastEnd) \<noteq> None \<and>
   snd (ApplyLocalOperation exDocument exInsertPastEnd) =
     exDocument\<lparr>localBuffer := [exInsertPastEnd]\<rparr>"
proof -
  have h: "Type exInsertPastEnd = OpInsert \<and>
      (Position exInsertPastEnd < 0 \<or>
       int (length (docContent (document exDocument))) < Position exInsertPastEnd)"
    by (simp add: ex_defs)
  have b: "localBuffer exDocument = []" by (simp add: ex_defs)
  from h b ApplyLocalOperation_failure_keeps_pending [of exDocument exInsertPastEnd]
  show ?thesis by simp
qed

text \<open>
  Claim C4 says that a local operation whose position or length is out of bounds fails
  with an invalid-position error, a delete past the end of the document in particular.
  The delete branch of \<open>applyOperationToDocument\<close> skips such an operation and reports
  success: on the document \<open>abc\<close> the local delete at position 5 returns no error.
\<close>

theorem local_delete_past_end_succeeds:
  "int (length (docContent (document exDocument))) \<le> Position exDeletePastEnd \<and>
   fst (ApplyLocalOperation exDocument exDeletePastEnd) = None"
  by (simp add: ex_defs ApplyLocalOperation_def applyOperationToDocument_def Let_def)

text \<open>
  Claim C4 as amended. \<open>ApplyLocalOperation\<close> fails with an invalid-position error
  exactly when the operation is an insert whose position is negative or greater than the
  length of the document. A delete never fails; when its position is negative or not
  below the length of the document, the document is left as it was.
\<close>

theorem ApplyLocalOperation_invalid_position:
  "((\<exists>p n. fst (ApplyLocalOperation sm op) = Some (FailedLocal (InvalidInsertPosition p n))) \<longleftrightarrow>
      Type op = OpInsert \<and>
        (Position op < 0 \<or> int (length (docContent (document sm))) < Position op)) \<and>
   (Type op = OpDelete \<longrightarrow> fst (ApplyLocalOperation sm op) = None) \<and>
   (Type op = OpDelete \<and>
      (Position op < 0 \<or> int (length (docContent (document sm))) \<le> Position op) \<longrightarrow>
      document (snd (ApplyLocalOperation sm op)) = document sm)"
proof -
  let ?sm1 = "sm\<lparr>localBuffer := localBuffer sm @ [op]\<rparr>"
  have e: "fst (ApplyLocalOperation sm op) = map_option FailedLocal (fst (applyOperationToDocument ?sm1 op))"
    by (rule ApplyLocalOperation_error)
  have c: "docContent (document ?sm1) = docContent (document sm)" by simp
  have first: "(\<exists>p n. fst (ApplyLocalOperation sm op) = Some (FailedLocal (InvalidInsertPosition p n))) \<longleftrightarrow>
      Type op = OpInsert \<and>
        (Position op < 0 \<or> int (length (docContent (document sm))) < Position op)"
    unfolding e applyOperationToDocument_error c
    using OpInsert_neq_OpDelete by auto
  have second: "fst (ApplyLocalOperation sm op) = None" if "Type op = OpDelete"
    unfolding e applyOperationToDocument_error c
    using that OpInsert_neq_OpDelete by auto
  have third: "document (snd (ApplyLocalOperation sm op)) = document sm"
    if "Type op = OpDelete" and "Position op < 0 \<or> int (length (docContent (document sm))) \<le> Position op"
  proof -
    from that OpInsert_neq_OpDelete have "applyOperationToDocument ?sm1 op = (None, ?sm1)"
      by (auto simp: applyOperationToDocument_def Let_def)
    then show ?thesis
      by (simp add: ApplyLocalOperation_def Let_def addToHistory_def)
  qed
  from first second third show ?thesis by blast
qed

theorem ApplyLocalOperation_invalid_position_witness:
  "Type exDeletePastEnd = OpDelete \<and>
   int (length (docContent (document exDocument))) \<le> Position exDeletePastEnd \<and>
   fst (ApplyLocalOperation exDocument exDeletePastEnd) = None \<and>
   document (snd (ApplyLocalOperation exDocument exDeletePastEnd)) = document exDocument \<and>
   Type exInsertPastEnd = OpInsert \<and>
   int (length (docContent (document exDocument))) < Position exInsertPastEnd \<and>
   fst (ApplyLocalOperation exDocument exInsertPastEnd) \<noteq> None"
proof -
  have d: "Type exDeletePastEnd = OpDelete \<and>
     int (length (docContent (document exDocument))) \<le> Position exDeletePastEnd"
    by (simp add: ex_defs)
  have i: "Type exInsertPastEnd = OpInsert \<and>
       int (length (docContent (document exDocument))) < Position exInsertPastEnd"
    by (simp add: ex_defs)
  from i ApplyLocalOperation_invalid_position [of exDocument exInsertPastEnd]
  obtain p n where
    "fst (ApplyLocalOperation exDocument exInsertPastEnd) = Some (FailedLocal (InvalidInsertPosition p n))"
    by blast
  then have "fst (ApplyLocalOperation exDocument exInsertPastEnd) \<noteq> None" by simp
  with d i ApplyLocalOperation_invalid_position [of exDocument exDeletePastEnd]
  show ?thesis by simp
qed

subsection \<open>The frame of the inclusion transforms\<close>

lemma transformInsertInsert_frame:
  "Type (transformInsertInsert op1 op2 w) = Type op1 \<and>
   Content (transformInsertInsert op1 op2 w) = Content op1 \<and>
   UserID (transformInsertInsert op1 op2 w) = UserID op1 \<and>
   Timestamp (transformInsertInsert op1 op2 w) = Timestamp op1 \<and>
   ID (transformInsertInsert op1 op2 w) = ID op1 \<and>
   VectorClock (transformInsertInsert op1 op2 w) = VectorClock op1"
  by (simp add: transformInsertInsert_def)

lemma transformInsertDelete_frame:
  "Type (transformInsertDelete op1 op2) = Type op1 \<and>
   Content (transformInsertDelete op1 op2) = Content op1 \<and>
   UserID (transformInsertDelete op1 op2) = UserID op1 \<and>
   Timestamp (transformInsertDelete op1 op2) = Timestamp op1 \<and>
   ID (transformInsertDelete op1 op2) = ID op1 \<and>
   VectorClock (transformInsertDelete op1 op2) = VectorClock op1"
  by (simp add: transformInsertDelete_def)

lemma transformDeleteInsert_frame:
  "Type (transformDeleteInsert op1 op2) = Type op1 \<and>
   Content (transformDeleteInsert op1 op2) = Content op1 \<and>
   UserID (transformDeleteInsert op1 op2) = UserID op1 \<and>
   Timestamp (transformDeleteInsert op1 op2) = Timestamp op1 \<and>
   ID (transformDeleteInsert op1 op2) = ID op1 \<and>
   VectorClock (transformDeleteInsert op1 op2) = VectorClock op1"
  by (simp add: transformDeleteInsert_def)

lemma transformDeleteDelete_frame:
  "Type (transformDeleteDelete op1 op2 w) = Type op1 \<and>
   UserID (transformDeleteDelete op1 op2 w) = UserID op1 \<and>
   Timestamp (transformDeleteDelete op1 op2 w) = Timestamp op1 \<and>
   ID (transformDeleteDelete op1 op2 w) = ID op1 \<and>
   VectorClock (transformDeleteDelete op1 op2 w) = VectorClock op1"
  by (simp add: transformDeleteDelete_def Let_def split: prod.splits)

lemma transformDeleteDelete_content:
  "(coveredBy op1 op2 \<longrightarrow>
      Content (transformDeleteDelete op1 op2 w) = [] \<and> Length (transformDeleteDelete op1 op2 w) = 0) \<and>
   (\<not> coveredBy op1 op2 \<longrightarrow> Content (transformDeleteDelete op1 op2 w) = Content op1)"
  by (auto simp: transformDeleteDelete_def coveredBy_def Let_def split: prod.splits)

lemma inclusionTransform_same_meta:
  "Type (inclusionTransform op1 op2 w) = Type op1 \<and>
   UserID (inclusionTransform op1 op2 w) = UserID op1 \<and>
   Timestamp (inclusionTransform op1 op2 w) = Timestamp op1 \<and>
   ID (inclusionTransform op1 op2 w) = ID op1 \<and>
   VectorClock (inclusionTransform op1 op2 w) = VectorClock op1"
  by (simp add: inclusionTransform_def transformInsertInsert_frame transformInsertDelete_frame
      transformDeleteInsert_frame transformDeleteDelete_frame)

text \<open>
  Claim C9. Whatever the two operations and the tie-break flag, the operation returned
  by \<open>inclusionTransform\<close> has the type, user, timestamp, id and vector clock of
  \<open>op\<close>. Its content is that of \<open>op\<close> too, except in the one branch of the
  delete-against-delete transform where \<open>against\<close> covers \<open>op\<close>: there the content
  becomes empty and the length 0. When the range of \<open>op\<close> is not empty, that branch is
  taken exactly when the range of \<open>against\<close> contains the range of \<open>op\<close>.
\<close>

theorem inclusionTransform_frame:
  "Type (inclusionTransform op against w) = Type op \<and>
   UserID (inclusionTransform op against w) = UserID op \<and>
   Timestamp (inclusionTransform op against w) = Timestamp op \<and>
   ID (inclusionTransform op against w) = ID op \<and>
   VectorClock (inclusionTransform op against w) = VectorClock op \<and>
   (if Type op = OpDelete \<and> Type against = OpDelete \<and> coveredBy op against
    then Content (inclusionTransform op against w) = [] \<and>
         Length (inclusionTransform op against w) = 0
    else Content (inclusionTransform op against w) = Content op) \<and>
   (Position op < add64 (Position op) (Length op) \<longrightarrow>
      coveredBy op against =
        (Position against \<le> Position op \<and>
         add64 (Position op) (Length op) \<le> add64 (Position against) (Length against)))"
proof -
  have content: "if Type op = OpDelete \<and> Type against = OpDelete \<and> coveredBy op against
    then Content (inclusionTransform op against w) = [] \<and>
         Length (inclusionTransform op against w) = 0
    else Content (inclusionTransform op against w) = Content op"
    using OpInsert_neq_OpDelete transformDeleteDelete_content [of op against w]
    by (auto simp: inclusionTransform_def transformInsertInsert_frame transformInsertDelete_frame
      transformDeleteInsert_frame)
  have cov: "coveredBy op against =
        (Position against \<le> Position op \<and>
         add64 (Position op) (Length op) \<le> add64 (Position against) (Length against))"
    if "Position op < add64 (Position op) (Length op)"
    using that by (auto simp: coveredBy_def Let_def)
  from inclusionTransform_same_meta [of op against w] content cov show ?thesis by blast
qed

theorem inclusionTransform_frame_witness:
  "Content (inclusionTransform exDeleteInner exDeleteOuter False) = [] \<and>
   Length (inclusionTransform exDeleteInner exDeleteOuter False) = 0 \<and>
   ID (inclusionTransform exDeleteInner exDeleteOuter False) = ''u1-1'' \<and>
   Content (inclusionTransform exDeleteOuter exDeleteInner True) = ''2345''"
proof -
  have c1: "Type exDeleteInner = OpDelete \<and> Type exDeleteOuter = OpDelete \<and>
      coveredBy exDeleteInner exDeleteOuter"
    by (simp add: ex_defs coveredBy_def add64_def wrap64_def)
  have c2: "\<not> coveredBy exDeleteOuter exDeleteInner"
    by (simp add: ex_defs coveredBy_def add64_def wrap64_def)
  have i: "ID exDeleteInner = ''u1-1''" and c: "Content exDeleteOuter = ''2345''"
    by (simp_all add: ex_defs)
  from c1 c2 i c inclusionTransform_frame [of exDeleteInner exDeleteOuter False]
    inclusionTransform_frame [of exDeleteOuter exDeleteInner True]
  show ?thesis by simp
qed

subsection \<open>Vector clocks\<close>

lemma vcGet_entry: "distinct (map fst vc) \<Longrightarrow> (u, t) \<in> set vc \<Longrightarrow> vcGet vc u = t"
  by (simp add: vcGet_def)

lemma vcGet_missing: "u \<notin> fst ` set vc \<Longrightarrow> vcGet vc u = 0"
proof -
  assume "u \<notin> fst ` set vc"
  then have "map_of vc u = None" by (simp add: map_of_eq_None_iff)
  then show ?thesis by (simp add: vcGet_def)
qed

lemma hbFirstLoop_eq:
  "hbFirstLoop vc other hs =
     (if \<exists>(u, t) \<in> set vc. vcGet other u < t then None
      else Some (hs \<or> (\<exists>(u, t) \<in> set vc. t < vcGet other u)))"
  by (induction vc other hs rule: hbFirstLoop.induct) (auto simp: Let_def)

lemma hbSecondLoop_eq:
  "hbSecondLoop other vc hs =
     (if \<exists>(u, t) \<in> set other. t < vcGet vc u then None
      else Some (hs \<or> (\<exists>(u, t) \<in> set other. vcGet vc u < t)))"
  by (induction other vc hs rule: hbSecondLoop.induct) (auto simp: Let_def)

lemma HappensBefore_entries:
  "HappensBefore a b \<longleftrightarrow>
     (\<forall>(u, t) \<in> set a. t \<le> vcGet b u) \<and> (\<forall>(u, t) \<in> set b. vcGet a u \<le> t) \<and>
     ((\<exists>(u, t) \<in> set a. t < vcGet b u) \<or> (\<exists>(u, t) \<in> set b. vcGet a u < t))"
proof -
  have A: "(\<exists>(u, t) \<in> set a. vcGet b u < t) \<longleftrightarrow> \<not> (\<forall>(u, t) \<in> set a. t \<le> vcGet b u)"
    by (simp add: split_def not_le)
  have B: "(\<exists>(u, t) \<in> set b. t < vcGet a u) \<longleftrightarrow> \<not> (\<forall>(u, t) \<in> set b. vcGet a u \<le> t)"
    by (simp add: split_def not_le)
  show ?thesis
    unfolding HappensBefore_def hbFirstLoop_eq hbSecondLoop_eq A B
    by simp
qed

lemma all_entries_iff:
  assumes "distinct (map fst a)"
  shows "(\<forall>(u, t) \<in> set a. P u t) \<longleftrightarrow> (\<forall>u \<in> fst ` set a. P u (vcGet a u))"
  using assms by (force simp: vcGet_entry)

lemma ex_entries_iff:
  assumes "distinct (map fst a)"
  shows "(\<exists>(u, t) \<in> set a. P u t) \<longleftrightarrow> (\<exists>u \<in> fst ` set a. P u (vcGet a u))"
  using assms by (force simp: vcGet_entry)

lemma HappensBefore_keys:
  assumes "distinct (map fst a)" and "distinct (map fst b)"
  shows "HappensBefore a b \<longleftrightarrow>
     (\<forall>p \<in> fst ` set a \<union> fst ` set b. vcGet a p \<le> vcGet b p) \<and>
     (\<exists>p \<in> fst ` set a \<union> fst ` set b. vcGet a p < vcGet b p)"
  unfolding HappensBefore_entries
    all_entries_iff [OF assms(1), of "\<lambda>u t. t \<le> vcGet b u"]
    all_entries_iff [OF assms(2), of "\<lambda>u t. vcGet a u \<le> t"]
    ex_entries_iff [OF assms(1), of "\<lambda>u t. t < vcGet b u"]
    ex_entries_iff [OF assms(2), of "\<lambda>u t. vcGet a u < t"]
  by blast

text \<open>
  Claim C7. For two clocks (maps, so no key occurs twice) \<open>HappensBefore a b\<close> holds
  if and only if \<open>a\<close> is at most \<open>b\<close> at every participant in the union of their
  keys and less than \<open>b\<close> at one of them at least, a missing entry counting as 0.
\<close>

theorem HappensBefore_strict_componentwise:
  assumes "distinct (map fst a)" and "distinct (map fst b)"
  shows "HappensBefore a b \<longleftrightarrow>
     (\<forall>p \<in> fst ` set a \<union> fst ` set b. vcGet a p \<le> vcGet b p) \<and>
     (\<exists>p \<in> fst ` set a \<union> fst ` set b. vcGet a p < vcGet b p)"
  using assms by (rule HappensBefore_keys)

theorem HappensBefore_strict_componentwise_witness:
  "distinct (map fst [(''u1'', 1::int)]) \<and> distinct (map fst [(''u1'', 1::int), (''u2'', 2)]) \<and>
   HappensBefore [(''u1'', 1)] [(''u1'', 1), (''u2'', 2)] \<and>
   \<not> HappensBefore [(''u1'', 1), (''u2'', 2)] [(''u1'', 1)]"
proof -
  have d1: "distinct (map fst [(''u1'', 1::int)])"
    and d2: "distinct (map fst [(''u1'', 1::int), (''u2'', 2)])"
    by simp_all
  show ?thesis
    using HappensBefore_strict_componentwise [OF d1 d2] HappensBefore_strict_componentwise [OF d2 d1]
    by (simp add: vcGet_def)
qed

subsection \<open>Operations since a clock\<close>

lemma causallyLE_iff:
  "causallyLE a b \<longleftrightarrow> (\<forall>p \<in> fst ` set a \<union> fst ` set b. vcGet a p \<le> vcGet b p)"
  by (auto simp: causallyLE_def list_all_iff)

lemma sameClock_iff:
  "sameClock a b \<longleftrightarrow> (\<forall>p \<in> fst ` set a \<union> fst ` set b. vcGet a p = vcGet b p)"
  by (auto simp: sameClock_def list_all_iff)

lemma causallyLE_split:
  assumes "distinct (map fst a)" and "distinct (map fst b)"
  shows "causallyLE a b \<longleftrightarrow> HappensBefore a b \<or> sameClock a b"
  unfolding causallyLE_iff sameClock_iff HappensBefore_keys [OF assms]
  by (metis order.order_iff_strict)

lemma Equals_implies_LE:
  assumes "wellFormedClock a" and "wellFormedClock b" and "Equals a b"
  shows "causallyLE a b"
proof (cases "length a = length b")
  case False
  with assms(3) show ?thesis
    by (auto simp: Equals_def causallyLE_def list_all_iff)
next
  case True
  with assms(3) have eq: "\<forall>(u, t) \<in> set a. vcGet b u = t"
    by (auto simp: Equals_def list_all_iff)
  from assms(1) have da: "distinct (map fst a)" by (simp add: wellFormedClock_def)
  have nonneg: "0 \<le> vcGet b p" for p
    using assms(2) by (auto simp: wellFormedClock_def vcGet_def list_all_iff split: option.splits dest: map_of_SomeD)
  show ?thesis
    unfolding causallyLE_iff
  proof
    fix p assume "p \<in> fst ` set a \<union> fst ` set b"
    show "vcGet a p \<le> vcGet b p"
    proof (cases "p \<in> fst ` set a")
      case True
      then obtain t where m: "(p, t) \<in> set a" by auto
      with eq have "vcGet b p = t" by auto
      moreover from da m have "vcGet a p = t" by (rule vcGet_entry)
      ultimately show ?thesis by simp
    next
      case False
      then have "vcGet a p = 0" by (rule vcGet_missing)
      with nonneg show ?thesis by simp
    qed
  qed
qed

lemma sameClock_implies_Equals:
  assumes "distinct (map fst a)" and "sameClock a b"
  shows "Equals a b"
proof -
  from assms(2) have all: "\<forall>p \<in> fst ` set a \<union> fst ` set b. vcGet a p = vcGet b p"
    by (simp add: sameClock_iff)
  have "vcGet b u = t" if "(u, t) \<in> set a" for u t
  proof -
    from that have "u \<in> fst ` set a" by force
    with all have "vcGet a u = vcGet b u" by blast
    with vcGet_entry [OF assms(1) that] show ?thesis by simp
  qed
  with all show ?thesis
    by (auto simp: Equals_def list_all_iff)
qed

lemma since_test:
  assumes "wellFormedClock a" and "wellFormedClock b"
  shows "(\<not> HappensBefore a b \<and> \<not> Equals a b) \<longleftrightarrow> \<not> causallyLE a b"
proof -
  from assms have d: "distinct (map fst a)" "distinct (map fst b)"
    by (simp_all add: wellFormedClock_def)
  show ?thesis
    using causallyLE_split [OF d] Equals_implies_LE [OF assms] sameClock_implies_Equals [OF d(1)]
    by blast
qed

lemma sinceLoop_filter:
  "sinceLoop ops c acc =
     acc @ filter (\<lambda>op. \<not> HappensBefore (VectorClock op) c \<and> \<not> Equals (VectorClock op) c) ops"
  by (induction ops arbitrary: acc) auto

lemma exTwoInserts_log: "docOperations (document exTwoInserts) = [exInsertA, exInsertB]"
  by (simp add: ex_defs ApplyLocalOperation_def applyOperationToDocument_def Let_def
      recordApplied_def addToHistory_def)

text \<open>
  Claim C8. For well-formed clocks \<open>GetOperationsSince\<close> returns the operations of
  the log, in the order of the log, whose clock is not componentwise at most the given
  clock; and a clock is componentwise at most another if and only if it happens before
  it or is equal to it.
\<close>

theorem GetOperationsSince_not_causally_LE:
  assumes "wellFormedClock c"
      and "\<forall>op \<in> set (docOperations (document sm)). wellFormedClock (VectorClock op)"
  shows "GetOperationsSince sm c =
           filter (\<lambda>op. \<not> causallyLE (VectorClock op) c) (docOperations (document sm)) \<and>
         (\<forall>op \<in> set (docOperations (document sm)).
            causallyLE (VectorClock op) c \<longleftrightarrow>
              HappensBefore (VectorClock op) c \<or> sameClock (VectorClock op) c)"
proof -
  have "filter (\<lambda>op. \<not> HappensBefore (VectorClock op) c \<and> \<not> Equals (VectorClock op) c)
          (docOperations (document sm)) =
        filter (\<lambda>op. \<not> causallyLE (VectorClock op) c) (docOperations (document sm))"
    using assms by (intro filter_cong refl since_test) auto
  then have "GetOperationsSince sm c =
           filter (\<lambda>op. \<not> causallyLE (VectorClock op) c) (docOperations (document sm))"
    by (simp add: GetOperationsSince_def sinceLoop_filter)
  moreover have "\<forall>op \<in> set (docOperations (document sm)).
            causallyLE (VectorClock op) c \<longleftrightarrow>
              HappensBefore (VectorClock op) c \<or> sameClock (VectorClock op) c"
    using assms by (auto simp: wellFormedClock_def causallyLE_split)
  ultimately show ?thesis by blast
qed

theorem GetOperationsSince_not_causally_LE_witness:
  "wellFormedClock [(''u1'', 1)] \<and>
   list_all (\<lambda>op. wellFormedClock (VectorClock op)) (docOperations (document exTwoInserts)) \<and>
   GetOperationsSince exTwoInserts [(''u1'', 1)] = [exInsertB]"
proof -
  have w: "wellFormedClock [(''u1'', 1)]"
    by (simp add: wellFormedClock_def)
  have l: "\<forall>op \<in> set (docOperations (document exTwoInserts)). wellFormedClock (VectorClock op)"
    by (simp add: exTwoInserts_log) (simp add: ex_defs wellFormedClock_def)
  have f: "filter (\<lambda>op. \<not> causallyLE (VectorClock op) [(''u1'', 1)]) [exInsertA, exInsertB] = [exInsertB]"
    by (simp add: exInsertA_def exInsertB_def causallyLE_def vcGet_def)
  from GetOperationsSince_not_causally_LE [OF w l] f w l show ?thesis
    by (simp add: exTwoInserts_log list_all_iff)
qed

subsection \<open>The version and the operation log\<close>

lemma recordApplied_version:
  "versionMatchesLog doc \<Longrightarrow> versionMatchesLog (recordApplied doc c op)"
  by (simp add: versionMatchesLog_def recordApplied_def)

lemma applyOperationToDocument_cases:
  "snd (applyOperationToDocument sm op) = sm \<or>
   (\<exists>c. snd (applyOperationToDocument sm op) = sm\<lparr>document := recordApplied (document sm) c op\<rparr>)"
  by (auto simp: applyOperationToDocument_def Let_def)

lemma applyOperationDirectly_form:
  "\<exists>c. applyOperationDirectly sm op = (None, sm\<lparr>document := recordApplied (document sm) c op\<rparr>)"
  unfolding applyOperationDirectly_def Let_def by blast

lemma applyOperationToDocument_version:
  "versionMatchesLog (document sm) \<Longrightarrow>
   versionMatchesLog (document (snd (applyOperationToDocument sm op)))"
  using applyOperationToDocument_cases [of sm op]
  by (auto simp: recordApplied_version)

lemma applyOperationDirectly_version:
  "versionMatchesLog (document sm) \<Longrightarrow>
   versionMatchesLog (document (snd (applyOperationDirectly sm op)))"
  using applyOperationDirectly_form [of sm op]
  by (auto simp: recordApplied_version)

lemma applyEach_invariant:
  assumes "\<forall>sm op. P sm \<longrightarrow> P (snd (f sm op))"
  shows "P sm \<Longrightarrow> P (snd (applyEach f sm ops))"
proof (induction ops arbitrary: sm)
  case Nil
  then show ?case by simp
next
  case (Cons op ops)
  from assms Cons.prems have step: "P (snd (f sm op))" by blast
  show ?case
  proof (cases "f sm op")
    case (Pair e sm')
    with step have inv: "P sm'" by simp
    show ?thesis
    proof (cases e)
      case None
      with Pair Cons.IH [OF inv] show ?thesis by simp
    next
      case (Some err)
      with Pair inv show ?thesis by simp
    qed
  qed
qed

lemma applyEach_version:
  assumes "\<forall>sm op. versionMatchesLog (document sm) \<longrightarrow> versionMatchesLog (document (snd (f sm op)))"
  shows "versionMatchesLog (document sm) \<Longrightarrow>
         versionMatchesLog (document (snd (applyEach f sm ops)))"
  using applyEach_invariant [of "\<lambda>sm. versionMatchesLog (document sm)" f sm ops] assms
  by blast

lemma undoLocalOperations_version:
  "versionMatchesLog (document (snd (undoLocalOperations sm ops)))"
proof -
  let ?sm0 = "sm\<lparr>document := (document sm)\<lparr>docContent := [], docVersion := 0, docOperations := []\<rparr>\<rparr>"
  have "versionMatchesLog (document ?sm0)" by (simp add: versionMatchesLog_def)
  then have "versionMatchesLog (document (snd (applyEach applyOperationDirectly ?sm0 xs)))" for xs
    using applyEach_version [of applyOperationDirectly ?sm0 xs] applyOperationDirectly_version
    by blast
  then show ?thesis
    by (simp add: undoLocalOperations_def Let_def split: prod.splits option.splits)
       (metis snd_conv)
qed

lemma ApplyLocalOperation_document:
  "document (snd (ApplyLocalOperation sm op)) =
   document (snd (applyOperationToDocument (sm\<lparr>localBuffer := localBuffer sm @ [op]\<rparr>) op))"
  by (simp add: ApplyLocalOperation_def Let_def addToHistory_def split: prod.splits option.splits)

lemma ApplyLocalOperation_version:
  "versionMatchesLog (document sm) \<Longrightarrow>
   versionMatchesLog (document (snd (ApplyLocalOperation sm op)))"
  unfolding ApplyLocalOperation_document
  by (rule applyOperationToDocument_version) simp

lemma ApplyLocalOperation_version_mono:
  "docVersion (document sm) \<le> docVersion (document (snd (ApplyLocalOperation sm op)))"
  unfolding ApplyLocalOperation_document
  using applyOperationToDocument_cases [of "sm\<lparr>localBuffer := localBuffer sm @ [op]\<rparr>" op]
  by (auto simp: recordApplied_def)

lemma ApplyRemoteOperation_version:
  "versionMatchesLog (document (snd (ApplyRemoteOperation srt sm r)))"
proof -
  let ?sm2 = "sm\<lparr>remoteBuffer := remoteBuffer sm @ [r],
    vectorClock := Update (vectorClock sm) (VectorClock r)\<rparr>"
  obtain r' ls' e where ot: "performOperationalTransformation srt r (localBuffer sm) = (r', ls', e)"
    by (cases "performOperationalTransformation srt r (localBuffer sm)") auto
  then have e: "e = None"
    by (auto simp: performOperationalTransformation_def Let_def split: prod.splits)
  obtain e3 sm3 where undo: "undoLocalOperations ?sm2 (localBuffer sm) = (e3, sm3)"
    by (cases "undoLocalOperations ?sm2 (localBuffer sm)") auto
  have i3: "versionMatchesLog (document sm3)"
    using undoLocalOperations_version [of ?sm2 "localBuffer sm"] undo by simp
  obtain e4 sm4 where ap: "applyOperationToDocument sm3 r' = (e4, sm4)"
    by (cases "applyOperationToDocument sm3 r'") auto
  have i4: "versionMatchesLog (document sm4)"
    using applyOperationToDocument_version [OF i3, of r'] ap by simp
  obtain e5 sm5 where re: "applyEach applyOperationToDocument sm4 ls' = (e5, sm5)"
    by (cases "applyEach applyOperationToDocument sm4 ls'") auto
  have i5: "versionMatchesLog (document sm5)"
    using applyEach_version [of applyOperationToDocument sm4 ls'] applyOperationToDocument_version i4 re
    by fastforce
  show ?thesis
    using ot e undo ap re i3 i4 i5
    by (cases e3; cases e4; cases e5)
       (simp_all add: ApplyRemoteOperation_def Let_def addToHistory_def)
qed

lemma reachable_version: "reachable srt sm \<Longrightarrow> versionMatchesLog (document sm)"
proof (induction rule: reachable.induct)
  case reachable_new
  show ?case by (simp add: NewSyncManager_def versionMatchesLog_def)
next
  case (reachable_user sm uid)
  then show ?case by (simp add: SetUserID_def)
next
  case (reachable_init sm content)
  show ?case by (simp add: InitializeDocument_def versionMatchesLog_def)
next
  case (reachable_create sm)
  then show ?case by (simp add: CreateOperation_def)
next
  case (reachable_local sm op)
  then show ?case by (simp add: ApplyLocalOperation_version)
next
  case (reachable_remote sm op)
  show ?case by (rule ApplyRemoteOperation_version)
next
  case (reachable_ack sm opID)
  then show ?case by (simp add: AcknowledgeOperation_def)
next
  case (reachable_cleanup sm)
  then show ?case by (simp add: CleanupHistory_def Let_def)
qed

lemma exAfterLocalDeletes_reachable: "reachable insertionSort exAfterLocalDeletes"
  unfolding exAfterLocalDeletes_def exAfterRemoteInsert_def exManager_def
  by (intro reachable_local reachable_remote reachable_user reachable_new)

text \<open>
  Claim C6 says that the version equals the length of the log after every public call
  and that it never decreases from one \<open>apply_local\<close> or \<open>apply_remote\<close> call to the
  next. The second part fails: \<open>ApplyRemoteOperation\<close> rebuilds the log, and a pending
  delete that has no effect any more when it is applied again is not logged. After a
  remote insert of \<open>abc\<close> and two local deletes of the first character the version is
  3; the delivery of a remote delete of the three characters succeeds and leaves the
  version at 2.
\<close>

theorem remote_delivery_decreases_version:
  "reachable insertionSort exAfterLocalDeletes \<and>
   docVersion (document exAfterLocalDeletes) = 3 \<and>
   fst (ApplyRemoteOperation insertionSort exAfterLocalDeletes exRemoteDeleteAll) = None \<and>
   docVersion (document (snd (ApplyRemoteOperation insertionSort exAfterLocalDeletes
                                 exRemoteDeleteAll))) = 2"
proof -
  have "docVersion (document exAfterLocalDeletes) = 3"
    by code_simp
  moreover have "fst (ApplyRemoteOperation insertionSort exAfterLocalDeletes exRemoteDeleteAll) = None"
    by code_simp
  moreover have "docVersion (document (snd (ApplyRemoteOperation insertionSort exAfterLocalDeletes
                                 exRemoteDeleteAll))) = 2"
    by code_simp
  ultimately show ?thesis
    using exAfterLocalDeletes_reachable by simp
qed

text \<open>
  Claim C6 as amended. In every manager that public calls produce from a new one the
  version of the document equals the length of its log, and \<open>ApplyLocalOperation\<close>
  never decreases the version.
\<close>

theorem version_is_log_length:
  "reachable srt sm \<Longrightarrow>
     versionMatchesLog (document sm) \<and>
     docVersion (document sm) \<le> docVersion (document (snd (ApplyLocalOperation sm op)))"
  using reachable_version [of srt sm] ApplyLocalOperation_version_mono [of sm op] by simp

theorem version_is_log_length_witness:
  "reachable insertionSort exAfterLocalDeletes \<and>
   versionMatchesLog (document exAfterLocalDeletes) \<and>
   docVersion (document exAfterLocalDeletes) = 3 \<and>
   docVersion (document (snd (ApplyLocalOperation exAfterLocalDeletes exInsertA))) = 4"
proof -
  have v: "docVersion (document exAfterLocalDeletes) = 3"
    and w: "docVersion (document (snd (ApplyLocalOperation exAfterLocalDeletes exInsertA))) = 4"
    by code_simp+
  from version_is_log_length [OF exAfterLocalDeletes_reachable, of exInsertA]
    exAfterLocalDeletes_reachable v w
  show ?thesis by simp
qed

subsection \<open>Delivering a remote operation twice\<close>

lemma vcGet_vcPut: "vcGet (vcPut u t vc) k = (if k = u then t else vcGet vc k)"
  by (induction vc) (auto simp: vcGet_def)

lemma Update_mono: "vcGet vc k \<le> vcGet (Update vc other) k"
proof (induction other arbitrary: vc)
  case Nil
  show ?case by simp
next
  case (Cons e other)
  obtain u t where e: "e = (u, t)" by (cases e)
  let ?vc' = "if vcGet vc u < t then vcPut u t vc else vc"
  have "vcGet vc k \<le> vcGet ?vc' k" by (simp add: vcGet_vcPut)
  also have "\<dots> \<le> vcGet (Update ?vc' other) k" by (rule Cons.IH)
  finally show ?case by (simp add: e)
qed

lemma Update_covers: "(u, t) \<in> set other \<Longrightarrow> t \<le> vcGet (Update vc other) u"
proof (induction other arbitrary: vc)
  case Nil
  then show ?case by simp
next
  case (Cons e other)
  obtain u' t' where e: "e = (u', t')" by (cases e)
  let ?vc' = "if vcGet vc u' < t' then vcPut u' t' vc else vc"
  show ?case
  proof (cases "(u, t) = e")
    case True
    then have "t \<le> vcGet ?vc' u" by (auto simp: e vcGet_vcPut)
    also have "\<dots> \<le> vcGet (Update ?vc' other) u" by (rule Update_mono)
    finally show ?thesis by (simp add: e)
  next
    case False
    with Cons.prems have "(u, t) \<in> set other" by simp
    then have "t \<le> vcGet (Update ?vc' other) u" by (rule Cons.IH)
    then show ?thesis by (simp add: e)
  qed
qed

lemma Update_covered: "\<forall>(u, t) \<in> set other. t \<le> vcGet vc u \<Longrightarrow> Update vc other = vc"
  by (induction other arbitrary: vc) auto

lemma Update_idem: "Update (Update vc other) other = Update vc other"
  by (rule Update_covered) (auto intro: Update_covers)

lemma applyOperationToDocument_vectorClock:
  "vectorClock (snd (applyOperationToDocument sm op)) = vectorClock sm"
  using applyOperationToDocument_cases [of sm op] by auto

lemma applyOperationDirectly_vectorClock:
  "vectorClock (snd (applyOperationDirectly sm op)) = vectorClock sm"
  using applyOperationDirectly_form [of sm op] by auto

lemma applyEach_vectorClock:
  assumes "\<forall>sm op. vectorClock (snd (f sm op)) = vectorClock sm"
  shows "vectorClock (snd (applyEach f sm ops)) = vectorClock sm"
  using applyEach_invariant [of "\<lambda>s. vectorClock s = vectorClock sm" f sm ops] assms
  by simp

lemma undoLocalOperations_vectorClock:
  "vectorClock (snd (undoLocalOperations sm ops)) = vectorClock sm"
proof -
  let ?sm0 = "sm\<lparr>document := (document sm)\<lparr>docContent := [], docVersion := 0, docOperations := []\<rparr>\<rparr>"
  have "vectorClock (snd (applyEach applyOperationDirectly ?sm0 xs)) = vectorClock sm" for xs
    using applyEach_vectorClock [of applyOperationDirectly ?sm0 xs] applyOperationDirectly_vectorClock
    by simp
  then show ?thesis
    by (simp add: undoLocalOperations_def Let_def split: prod.splits option.splits)
       (metis snd_conv)
qed

lemma performOperationalTransformation_no_error:
  "snd (snd (performOperationalTransformation srt r ls)) = None"
  by (simp add: performOperationalTransformation_def Let_def split: prod.splits)

lemma ApplyRemoteOperation_vectorClock:
  "vectorClock (snd (ApplyRemoteOperation srt sm r)) = Update (vectorClock sm) (VectorClock r)"
proof -
  let ?sm2 = "sm\<lparr>remoteBuffer := remoteBuffer sm @ [r],
    vectorClock := Update (vectorClock sm) (VectorClock r)\<rparr>"
  obtain r' ls' e where ot: "performOperationalTransformation srt r (localBuffer sm) = (r', ls', e)"
    by (cases "performOperationalTransformation srt r (localBuffer sm)") auto
  with performOperationalTransformation_no_error [of srt r "localBuffer sm"]
  have e: "e = None" by simp
  obtain e3 sm3 where undo: "undoLocalOperations ?sm2 (localBuffer sm) = (e3, sm3)"
    by (cases "undoLocalOperations ?sm2 (localBuffer sm)") auto
  have i3: "vectorClock sm3 = vectorClock ?sm2"
    using undoLocalOperations_vectorClock [of ?sm2 "localBuffer sm"] undo by simp
  obtain e4 sm4 where ap: "applyOperationToDocument sm3 r' = (e4, sm4)"
    by (cases "applyOperationToDocument sm3 r'") auto
  have i4: "vectorClock sm4 = vectorClock sm3"
    using applyOperationToDocument_vectorClock [of sm3 r'] ap by simp
  obtain e5 sm5 where re: "applyEach applyOperationToDocument sm4 ls' = (e5, sm5)"
    by (cases "applyEach applyOperationToDocument sm4 ls'") auto
  have i5: "vectorClock sm5 = vectorClock sm4"
    using applyEach_vectorClock [of applyOperationToDocument sm4 ls']
      applyOperationToDocument_vectorClock re
    by simp
  show ?thesis
    using ot e undo ap re i3 i4 i5
    by (cases e3; cases e4; cases e5)
       (simp_all add: ApplyRemoteOperation_def Let_def addToHistory_def)
qed

lemma applyEach_directly_no_error: "fst (applyEach applyOperationDirectly sm ops) = None"
proof (induction ops arbitrary: sm)
  case Nil
  show ?case by simp
next
  case (Cons op ops)
  from applyOperationDirectly_form [of sm op] obtain c where
    "applyOperationDirectly sm op = (None, sm\<lparr>document := recordApplied (document sm) c op\<rparr>)" ..
  with Cons.IH show ?case by simp
qed

lemma applyEach_directly_step:
  "snd (applyEach applyOperationDirectly sm (op # ops)) =
   snd (applyEach applyOperationDirectly (snd (applyOperationDirectly sm op)) ops)"
proof -
  from applyOperationDirectly_form [of sm op] obtain c where
    "applyOperationDirectly sm op = (None, sm\<lparr>document := recordApplied (document sm) c op\<rparr>)" ..
  then show ?thesis by simp
qed

lemma applyEach_directly_append:
  "snd (applyEach applyOperationDirectly sm (xs @ ys)) =
   snd (applyEach applyOperationDirectly (snd (applyEach applyOperationDirectly sm xs)) ys)"
proof (induction xs arbitrary: sm)
  case Nil
  show ?case by simp
next
  case (Cons x xs)
  show ?case
    unfolding append_Cons applyEach_directly_step by (rule Cons.IH)
qed

lemma applyOperationDirectly_content_cong:
  "docContent (document s) = docContent (document s') \<Longrightarrow>
   docContent (document (snd (applyOperationDirectly s op))) =
   docContent (document (snd (applyOperationDirectly s' op)))"
  by (simp add: applyOperationDirectly_def Let_def recordApplied_def)

lemma applyEach_directly_content_cong:
  "docContent (document s) = docContent (document s') \<Longrightarrow>
   docContent (document (snd (applyEach applyOperationDirectly s ops))) =
   docContent (document (snd (applyEach applyOperationDirectly s' ops)))"
proof (induction ops arbitrary: s s')
  case Nil
  then show ?case by simp
next
  case (Cons op ops)
  show ?case
    unfolding applyEach_directly_step
    by (rule Cons.IH) (rule applyOperationDirectly_content_cong [OF Cons.prems])
qed

lemma applyEach_directly_log:
  "docOperations (document (snd (applyEach applyOperationDirectly sm ops))) =
   docOperations (document sm) @ ops"
proof (induction ops arbitrary: sm)
  case Nil
  show ?case by simp
next
  case (Cons op ops)
  from applyOperationDirectly_form [of sm op] obtain c where
    "applyOperationDirectly sm op = (None, sm\<lparr>document := recordApplied (document sm) c op\<rparr>)" ..
  then show ?case
    unfolding applyEach_directly_step Cons.IH by (simp add: recordApplied_def)
qed

lemma applyOperationDirectly_insert:
  assumes "Type op = OpInsert" and "0 \<le> Position op"
      and "Position op \<le> int (length (docContent (document sm)))"
  shows "docContent (document (snd (applyOperationDirectly sm op))) =
     take (nat (Position op)) (docContent (document sm)) @ Content op @
     drop (nat (Position op)) (docContent (document sm))"
  using assms by (simp add: applyOperationDirectly_def Let_def recordApplied_def)

lemma applyOperationToDocument_insert:
  assumes "Type op = OpInsert" and "fst (applyOperationToDocument sm op) = None"
  shows "0 \<le> Position op \<and> Position op \<le> int (length (docContent (document sm))) \<and>
     snd (applyOperationToDocument sm op) =
       sm\<lparr>document := recordApplied (document sm)
         (take (nat (Position op)) (docContent (document sm)) @ Content op @
          drop (nat (Position op)) (docContent (document sm))) op\<rparr>"
  using assms by (auto simp: applyOperationToDocument_def Let_def split: if_splits)

lemma applyOperationToDocument_insert_ok:
  assumes "Type op = OpInsert" and "0 \<le> Position op"
      and "Position op \<le> int (length (docContent (document sm)))"
  shows "applyOperationToDocument sm op =
       (None, sm\<lparr>document := recordApplied (document sm)
         (take (nat (Position op)) (docContent (document sm)) @ Content op @
          drop (nat (Position op)) (docContent (document sm))) op\<rparr>)"
  using assms by (auto simp: applyOperationToDocument_def Let_def split: if_splits)

text \<open>A remote operation delivered while nothing is pending.\<close>

lemma undoLocalOperations_nothing_pending:
  "undoLocalOperations sm [] = (None, replayLog sm)"
proof -
  let ?sm0 = "sm\<lparr>document := (document sm)\<lparr>docContent := [], docVersion := 0, docOperations := []\<rparr>\<rparr>"
  obtain e s where a: "applyEach applyOperationDirectly ?sm0 (docOperations (document sm)) = (e, s)"
    by (cases "applyEach applyOperationDirectly ?sm0 (docOperations (document sm))") auto
  with applyEach_directly_no_error [of ?sm0 "docOperations (document sm)"] have "e = None" by simp
  with a show ?thesis
    by (simp add: undoLocalOperations_def replayLog_def Let_def)
qed

lemma performOperationalTransformation_nothing_pending:
  "topologicalSort srt [r] = [r] \<Longrightarrow> performOperationalTransformation srt r [] = (r, [], None)"
  by (simp add: performOperationalTransformation_def Let_def)

lemma ApplyRemoteOperation_nothing_pending:
  assumes "localBuffer sm = []" and "topologicalSort srt [r] = [r]"
  shows "ApplyRemoteOperation srt sm r =
     (case applyOperationToDocument (replayLog (stageRemote sm r)) r of
        (Some err, sm4) \<Rightarrow> (Some (FailedTransformedRemote err), sm4)
      | (None, sm4) \<Rightarrow> (None, addToHistory (sm4\<lparr>localBuffer := []\<rparr>) r))"
  using assms
  by (simp add: ApplyRemoteOperation_def Let_def stageRemote_def
      performOperationalTransformation_nothing_pending undoLocalOperations_nothing_pending
      split: prod.splits option.splits)

lemma replayLog_log: "docOperations (document (replayLog sm)) = docOperations (document sm)"
  by (simp add: replayLog_def applyEach_directly_log)

lemma replayLog_after_insert:
  assumes "Type r = OpInsert" and "0 \<le> Position r"
      and "Position r \<le> int (length (docContent (document (replayLog sm))))"
      and "docOperations (document sm1) = docOperations (document sm) @ [r]"
  shows "docContent (document (replayLog sm1)) =
     take (nat (Position r)) (docContent (document (replayLog sm))) @ Content r @
     drop (nat (Position r)) (docContent (document (replayLog sm)))"
proof -
  let ?b = "\<lambda>s. s\<lparr>document := (document s)\<lparr>docContent := [], docVersion := 0, docOperations := []\<rparr>\<rparr>"
  let ?mid = "snd (applyEach applyOperationDirectly (?b sm1) (docOperations (document sm)))"
  have same: "docContent (document ?mid) = docContent (document (replayLog sm))"
    unfolding replayLog_def by (rule applyEach_directly_content_cong) simp
  have "replayLog sm1 = snd (applyEach applyOperationDirectly ?mid [r])"
    unfolding replayLog_def assms(4) by (rule applyEach_directly_append)
  also have "\<dots> = snd (applyOperationDirectly ?mid r)"
    unfolding applyEach_directly_step by simp
  finally have "docContent (document (replayLog sm1)) =
      docContent (document (snd (applyOperationDirectly ?mid r)))" by simp
  also have "\<dots> = take (nat (Position r)) (docContent (document ?mid)) @ Content r @
     drop (nat (Position r)) (docContent (document ?mid))"
    using assms(1-3) same by (intro applyOperationDirectly_insert) simp_all
  finally show ?thesis by (simp only: same)
qed

lemma replayLog_version: "versionMatchesLog (document (replayLog sm))"
  using undoLocalOperations_version [of sm "[]"]
  by (simp add: undoLocalOperations_nothing_pending)

lemma second_delivery_of_insert:
  assumes pending: "localBuffer sm = []"
      and sorted: "topologicalSort srt [r] = [r]"
      and ins: "Type r = OpInsert"
      and ok: "fst (ApplyRemoteOperation srt sm r) = None"
  defines "sm1 \<equiv> snd (ApplyRemoteOperation srt sm r)"
  defines "c1 \<equiv> docContent (document sm1)"
  shows "fst (ApplyRemoteOperation srt sm1 r) = None \<and>
     docContent (document (snd (ApplyRemoteOperation srt sm1 r))) =
       take (nat (Position r)) c1 @ Content r @ drop (nat (Position r)) c1 \<and>
     docVersion (document (snd (ApplyRemoteOperation srt sm1 r))) = docVersion (document sm1) + 1 \<and>
     docOperations (document (snd (ApplyRemoteOperation srt sm1 r))) =
       docOperations (document sm1) @ [r]"
proof -
  let ?s3 = "replayLog (stageRemote sm r)"
  let ?c3 = "docContent (document ?s3)"
  let ?p = "nat (Position r)"
  have first: "ApplyRemoteOperation srt sm r =
     (case applyOperationToDocument ?s3 r of
        (Some err, sm4) \<Rightarrow> (Some (FailedTransformedRemote err), sm4)
      | (None, sm4) \<Rightarrow> (None, addToHistory (sm4\<lparr>localBuffer := []\<rparr>) r))"
    by (rule ApplyRemoteOperation_nothing_pending [OF pending sorted])
  with ok have ok3: "fst (applyOperationToDocument ?s3 r) = None"
    by (auto split: prod.splits option.splits)
  from applyOperationToDocument_insert [OF ins ok3]
  have range: "0 \<le> Position r" "Position r \<le> int (length ?c3)"
    and s4: "snd (applyOperationToDocument ?s3 r) =
       ?s3\<lparr>document := recordApplied (document ?s3) (take ?p ?c3 @ Content r @ drop ?p ?c3) r\<rparr>"
    by simp_all
  from first ok3 s4 have sm1: "sm1 =
      addToHistory (?s3\<lparr>document := recordApplied (document ?s3) (take ?p ?c3 @ Content r @ drop ?p ?c3) r,
                        localBuffer := []\<rparr>) r"
    unfolding sm1_def by (cases "applyOperationToDocument ?s3 r") auto
  have doc1: "document sm1 = recordApplied (document ?s3) (take ?p ?c3 @ Content r @ drop ?p ?c3) r"
    and pending1: "localBuffer sm1 = []"
    unfolding sm1 by (simp_all add: addToHistory_def Let_def)
  have c1: "c1 = take ?p ?c3 @ Content r @ drop ?p ?c3"
    unfolding c1_def doc1 by (simp add: recordApplied_def)
  have log1: "docOperations (document sm1) = docOperations (document (stageRemote sm r)) @ [r]"
    unfolding doc1 by (simp add: recordApplied_def replayLog_log)
  let ?t3 = "replayLog (stageRemote sm1 r)"
  have log_stage: "docOperations (document (stageRemote sm1 r)) =
      docOperations (document (stageRemote sm r)) @ [r]"
    using log1 by (simp add: stageRemote_def)
  have content3: "docContent (document ?t3) = c1"
    unfolding c1 by (rule replayLog_after_insert [OF ins range log_stage])
  have range1: "Position r \<le> int (length (docContent (document ?t3)))"
    unfolding content3 c1 using range by simp
  have second: "ApplyRemoteOperation srt sm1 r =
     (case applyOperationToDocument ?t3 r of
        (Some err, sm4) \<Rightarrow> (Some (FailedTransformedRemote err), sm4)
      | (None, sm4) \<Rightarrow> (None, addToHistory (sm4\<lparr>localBuffer := []\<rparr>) r))"
    by (rule ApplyRemoteOperation_nothing_pending [OF pending1 sorted])
  have result: "ApplyRemoteOperation srt sm1 r =
      (None, addToHistory (?t3\<lparr>document := recordApplied (document ?t3)
          (take ?p c1 @ Content r @ drop ?p c1) r, localBuffer := []\<rparr>) r)"
    unfolding second applyOperationToDocument_insert_ok [OF ins range(1) range1] content3
    by simp
  have log3: "docOperations (document ?t3) = docOperations (document sm1)"
    by (simp add: replayLog_log stageRemote_def)
  have "versionMatchesLog (document ?t3)" by (rule replayLog_version)
  moreover have "versionMatchesLog (document sm1)"
    unfolding sm1_def by (rule ApplyRemoteOperation_version)
  ultimately have version3: "docVersion (document ?t3) = docVersion (document sm1)"
    using log3 by (simp add: versionMatchesLog_def)
  show ?thesis
    unfolding result
    by (simp add: addToHistory_def Let_def recordApplied_def log3 version3)
qed

text \<open>
  Claim C2 says that a second delivery of the same remote operation is rejected or has
  no effect. \<open>ApplyRemoteOperation\<close> never looks whether the id was applied before: on
  a new manager the remote insert of \<open>A\<close> at position 0 gives the content \<open>A\<close> and
  version 1, and its second delivery succeeds too and gives \<open>AA\<close> and version 2.
\<close>

theorem second_delivery_changes_document:
  "fst (ApplyRemoteOperation insertionSort exManager exRemoteInsertA) = None \<and>
   docContent (document exAfterFirstDelivery) = ''A'' \<and>
   docVersion (document exAfterFirstDelivery) = 1 \<and>
   fst (ApplyRemoteOperation insertionSort exAfterFirstDelivery exRemoteInsertA) = None \<and>
   docContent (document (snd (ApplyRemoteOperation insertionSort exAfterFirstDelivery exRemoteInsertA))) = ''AA'' \<and>
   docVersion (document (snd (ApplyRemoteOperation insertionSort exAfterFirstDelivery exRemoteInsertA))) = 2"
  by code_simp

text \<open>
  Claim C2 as amended. The second delivery leaves the clock of the manager as the first
  delivery left it. It is not rejected: when nothing is pending and the first delivery
  of an insert succeeded, the second delivery succeeds as well, inserts the text once
  more at the same position, appends the operation to the log again and increments the
  version. (The sorting routine is only required to return a single operation as it is.)
\<close>

theorem second_delivery_applied_again:
  "vectorClock (snd (ApplyRemoteOperation srt (snd (ApplyRemoteOperation srt sm r)) r)) =
     vectorClock (snd (ApplyRemoteOperation srt sm r)) \<and>
   (localBuffer sm = [] \<and> topologicalSort srt [r] = [r] \<and> Type r = OpInsert \<and>
    fst (ApplyRemoteOperation srt sm r) = None \<longrightarrow>
      fst (ApplyRemoteOperation srt (snd (ApplyRemoteOperation srt sm r)) r) = None \<and>
      docContent (document (snd (ApplyRemoteOperation srt (snd (ApplyRemoteOperation srt sm r)) r))) =
        take (nat (Position r)) (docContent (document (snd (ApplyRemoteOperation srt sm r)))) @
        Content r @
        drop (nat (Position r)) (docContent (document (snd (ApplyRemoteOperation srt sm r)))) \<and>
      docVersion (document (snd (ApplyRemoteOperation srt (snd (ApplyRemoteOperation srt sm r)) r))) =
        docVersion (document (snd (ApplyRemoteOperation srt sm r))) + 1 \<and>
      docOperations (document (snd (ApplyRemoteOperation srt (snd (ApplyRemoteOperation srt sm r)) r))) =
        docOperations (document (snd (ApplyRemoteOperation srt sm r))) @ [r])"
proof -
  have "vectorClock (snd (ApplyRemoteOperation srt (snd (ApplyRemoteOperation srt sm r)) r)) =
     vectorClock (snd (ApplyRemoteOperation srt sm r))"
    by (simp add: ApplyRemoteOperation_vectorClock Update_idem)
  with second_delivery_of_insert [of sm srt r] show ?thesis by blast
qed

theorem second_delivery_applied_again_witness:
  "localBuffer exManager = [] \<and> topologicalSort insertionSort [exRemoteInsertA] = [exRemoteInsertA] \<and>
   Type exRemoteInsertA = OpInsert \<and>
   fst (ApplyRemoteOperation insertionSort exManager exRemoteInsertA) = None \<and>
   docVersion (document (snd (ApplyRemoteOperation insertionSort exAfterFirstDelivery exRemoteInsertA))) =
     docVersion (document exAfterFirstDelivery) + 1 \<and>
   vectorClock (snd (ApplyRemoteOperation insertionSort exAfterFirstDelivery exRemoteInsertA)) =
     vectorClock exAfterFirstDelivery"
proof -
  have h: "localBuffer exManager = [] \<and>
      topologicalSort insertionSort [exRemoteInsertA] = [exRemoteInsertA] \<and>
      Type exRemoteInsertA = OpInsert \<and>
      fst (ApplyRemoteOperation insertionSort exManager exRemoteInsertA) = None"
    by code_simp
  from h second_delivery_applied_again [of insertionSort exManager exRemoteInsertA]
  show ?thesis by (simp add: exAfterFirstDelivery_def)
qed

subsection \<open>A remote operation whose position is invalid\<close>

lemma transformLocal_length: "length (transformLocal opID f ls) = length ls"
  by (induction ls) auto

lemma transformTarget_shape:
  "sameShape r n st \<Longrightarrow> sameShape r n (transformTarget remoteOp target against w st)"
  by (cases st)
     (simp add: sameShape_def transformTarget_def inclusionTransform_same_meta transformLocal_length)

lemma transformPair_shape:
  "sameShape r n st \<Longrightarrow> sameShape r n (transformPair remoteOp op1 op2 st)"
  by (simp add: transformPair_def transformTarget_shape)

lemma fold_transformPair_shape:
  "sameShape r n st \<Longrightarrow> sameShape r n (fold (transformPair remoteOp op1) later st)"
  by (induction later arbitrary: st) (simp_all add: transformPair_shape)

lemma transformPairs_shape:
  "sameShape r n st \<Longrightarrow> sameShape r n (transformPairs remoteOp ops st)"
  by (induction ops arbitrary: st) (simp_all add: fold_transformPair_shape)

lemma performOperationalTransformation_shape:
  "performOperationalTransformation srt r ls = (r', ls', e) \<Longrightarrow>
   Type r' = Type r \<and> length ls' = length ls \<and> e = None"
proof -
  assume a: "performOperationalTransformation srt r ls = (r', ls', e)"
  have "sameShape r (length ls) (r, ls)" by (simp add: sameShape_def)
  then have "sameShape r (length ls) (transformPairs r (topologicalSort srt (r # ls)) (r, ls))"
    by (rule transformPairs_shape)
  with a show ?thesis
    by (auto simp: performOperationalTransformation_def Let_def sameShape_def split: prod.splits)
qed

lemma undoLocalOperations_no_error: "fst (undoLocalOperations sm ops) = None"
proof -
  let ?sm0 = "sm\<lparr>document := (document sm)\<lparr>docContent := [], docVersion := 0, docOperations := []\<rparr>\<rparr>"
  let ?xs = "filter (\<lambda>op. ID op \<notin> set (map ID ops)) (docOperations (document sm))"
  obtain e s where a: "applyEach applyOperationDirectly ?sm0 ?xs = (e, s)"
    by (cases "applyEach applyOperationDirectly ?sm0 ?xs") auto
  with applyEach_directly_no_error [of ?sm0 ?xs] have "e = None" by simp
  with a show ?thesis
    by (simp add: undoLocalOperations_def Let_def)
qed

lemma applyOperationToDocument_delete_skipped:
  assumes "Type op = OpDelete"
      and "Position op < 0 \<or> int (length (docContent (document sm))) \<le> Position op"
  shows "applyOperationToDocument sm op = (None, sm)"
  using assms OpInsert_neq_OpDelete
  by (auto simp: applyOperationToDocument_def Let_def)

lemma applyOperationToDocument_insert_rejected:
  assumes "Type op = OpInsert"
      and "Position op < 0 \<or> int (length (docContent (document sm))) < Position op"
  shows "applyOperationToDocument sm op =
     (Some (InvalidInsertPosition (Position op) (int (length (docContent (document sm))))), sm)"
  using assms by (auto simp: applyOperationToDocument_def Let_def)

text \<open>
  Claim C5 says that a remote operation whose position is invalid after the
  transformation, insert or delete, is applied as a no-op and that the call succeeds.
  This holds for a delete only. The insert branch of \<open>applyOperationToDocument\<close>
  returns an error, which \<open>ApplyRemoteOperation\<close> hands on: with the document \<open>abc\<close>
  and nothing pending, the remote insert at position 7 fails.
\<close>

theorem remote_insert_past_end_fails:
  "docContent (document exAfterRemoteInsert) = ''abc'' \<and>
   localBuffer exAfterRemoteInsert = [] \<and>
   fst (ApplyRemoteOperation insertionSort exAfterRemoteInsert exRemoteInsertFar) =
     Some (FailedTransformedRemote (InvalidInsertPosition 7 3))"
  by code_simp

text \<open>
  Claim C5 as amended. Let \<open>r'\<close> be the transformed remote operation and \<open>sm3\<close> the
  manager after the pending operations were undone; \<open>r'\<close> has the type of \<open>r\<close>.
  If \<open>r\<close> is a delete and the position of \<open>r'\<close> is negative or not below the length
  of the document of \<open>sm3\<close>, applying \<open>r'\<close> succeeds and changes nothing, the call
  does not fail on the remote operation, and with nothing pending it succeeds and leaves
  the document of \<open>sm3\<close>. If \<open>r\<close> is an insert and the position of \<open>r'\<close> is
  negative or greater than that length, the call returns the invalid-position error.
\<close>

theorem remote_invalid_position:
  fixes srt :: sortSlice and sm :: SyncManager and r :: Operation
  defines "r' \<equiv> fst (performOperationalTransformation srt r (localBuffer sm))"
      and "sm3 \<equiv> snd (undoLocalOperations (stageRemote sm r) (localBuffer sm))"
  shows "Type r' = Type r \<and>
    (Type r = OpInsert \<and>
       (Position r' < 0 \<or> int (length (docContent (document sm3))) < Position r') \<longrightarrow>
     ApplyRemoteOperation srt sm r =
       (Some (FailedTransformedRemote
          (InvalidInsertPosition (Position r') (int (length (docContent (document sm3)))))), sm3)) \<and>
    (Type r = OpDelete \<and>
       (Position r' < 0 \<or> int (length (docContent (document sm3))) \<le> Position r') \<longrightarrow>
     applyOperationToDocument sm3 r' = (None, sm3) \<and>
     (\<forall>e. fst (ApplyRemoteOperation srt sm r) \<noteq> Some (FailedTransformedRemote e)) \<and>
     (localBuffer sm = [] \<longrightarrow>
        ApplyRemoteOperation srt sm r = (None, addToHistory (sm3\<lparr>localBuffer := []\<rparr>) r')))"
proof -
  obtain ls' e where ot: "performOperationalTransformation srt r (localBuffer sm) = (r', ls', e)"
    unfolding r'_def by (cases "performOperationalTransformation srt r (localBuffer sm)") auto
  from performOperationalTransformation_shape [OF ot]
  have ty: "Type r' = Type r" and len: "length ls' = length (localBuffer sm)" and e: "e = None"
    by simp_all
  have undo: "undoLocalOperations (stageRemote sm r) (localBuffer sm) = (None, sm3)"
    unfolding sm3_def
    using undoLocalOperations_no_error [of "stageRemote sm r" "localBuffer sm"]
    by (cases "undoLocalOperations (stageRemote sm r) (localBuffer sm)") auto
  have run: "ApplyRemoteOperation srt sm r =
      (case applyOperationToDocument sm3 r' of
         (Some err, sm4) \<Rightarrow> (Some (FailedTransformedRemote err), sm4)
       | (None, sm4) \<Rightarrow>
           (case applyEach applyOperationToDocument sm4 ls' of
              (Some err, sm5) \<Rightarrow> (Some (FailedReapplyLocal err), sm5)
            | (None, sm5) \<Rightarrow> (None, addToHistory (sm5\<lparr>localBuffer := ls'\<rparr>) r')))"
    using ot e undo
    by (simp add: ApplyRemoteOperation_def Let_def stageRemote_def)
  have insert_case: "ApplyRemoteOperation srt sm r =
       (Some (FailedTransformedRemote
          (InvalidInsertPosition (Position r') (int (length (docContent (document sm3)))))), sm3)"
    if "Type r = OpInsert"
      and "Position r' < 0 \<or> int (length (docContent (document sm3))) < Position r'"
  proof -
    from that ty have "Type r' = OpInsert" by simp
    from applyOperationToDocument_insert_rejected [OF this that(2)]
    show ?thesis unfolding run by simp
  qed
  have delete_case: "applyOperationToDocument sm3 r' = (None, sm3) \<and>
     (\<forall>e. fst (ApplyRemoteOperation srt sm r) \<noteq> Some (FailedTransformedRemote e)) \<and>
     (localBuffer sm = [] \<longrightarrow>
        ApplyRemoteOperation srt sm r = (None, addToHistory (sm3\<lparr>localBuffer := []\<rparr>) r'))"
    if "Type r = OpDelete"
      and "Position r' < 0 \<or> int (length (docContent (document sm3))) \<le> Position r'"
  proof -
    from that ty have "Type r' = OpDelete" by simp
    from applyOperationToDocument_delete_skipped [OF this that(2)]
    have skip: "applyOperationToDocument sm3 r' = (None, sm3)" .
    have "fst (ApplyRemoteOperation srt sm r) \<noteq> Some (FailedTransformedRemote e)" for e
      unfolding run skip by (auto split: prod.splits option.splits)
    moreover have "ApplyRemoteOperation srt sm r = (None, addToHistory (sm3\<lparr>localBuffer := []\<rparr>) r')"
      if "localBuffer sm = []"
    proof -
      from that len have "ls' = []" by simp
      then show ?thesis unfolding run skip by simp
    qed
    ultimately show ?thesis using skip by blast
  qed
  from ty insert_case delete_case show ?thesis by blast
qed

theorem remote_invalid_position_witness:
  "Type exRemoteDeleteFar = OpDelete \<and> localBuffer exAfterRemoteInsert = [] \<and>
   Position (fst (performOperationalTransformation insertionSort exRemoteDeleteFar [])) = 7 \<and>
   docContent (document (snd (undoLocalOperations (stageRemote exAfterRemoteInsert exRemoteDeleteFar)
                                 []))) = ''abc'' \<and>
   fst (ApplyRemoteOperation insertionSort exAfterRemoteInsert exRemoteDeleteFar) = None \<and>
   Type exRemoteInsertFar = OpInsert \<and>
   fst (ApplyRemoteOperation insertionSort exAfterRemoteInsert exRemoteInsertFar) =
     Some (FailedTransformedRemote (InvalidInsertPosition 7 3))"
proof -
  have b: "localBuffer exAfterRemoteInsert = []"
    by code_simp
  have d: "Type exRemoteDeleteFar = OpDelete"
    "Position (fst (performOperationalTransformation insertionSort exRemoteDeleteFar [])) = 7"
    "docContent (document (snd (undoLocalOperations (stageRemote exAfterRemoteInsert exRemoteDeleteFar)
                                 []))) = ''abc''"
    by code_simp+
  have i: "Type exRemoteInsertFar = OpInsert"
    "Position (fst (performOperationalTransformation insertionSort exRemoteInsertFar [])) = 7"
    "docContent (document (snd (undoLocalOperations (stageRemote exAfterRemoteInsert exRemoteInsertFar)
                                 []))) = ''abc''"
    by code_simp+
  from remote_invalid_position [where srt = insertionSort and sm = exAfterRemoteInsert
      and r = exRemoteDeleteFar]
  have "fst (ApplyRemoteOperation insertionSort exAfterRemoteInsert exRemoteDeleteFar) = None"
    unfolding b d by simp
  moreover
  from remote_invalid_position [where srt = insertionSort and sm = exAfterRemoteInsert
      and r = exRemoteInsertFar]
  have "fst (ApplyRemoteOperation insertionSort exAfterRemoteInsert exRemoteInsertFar) =
     Some (FailedTransformedRemote (InvalidInsertPosition 7 3))"
    unfolding b i by simp
  ultimately show ?thesis using b d i by simp
qed

subsection \<open>The priority of an operation\<close>

lemma wrap64_mod: "wrap64 a mod 2 ^ 64 = a mod 2 ^ 64"
proof -
  have "wrap64 a mod 2 ^ 64 = ((a + 2 ^ 63) mod 2 ^ 64 - 2 ^ 63) mod 2 ^ 64"
    by (simp add: wrap64_def)
  also have "\<dots> = (a + 2 ^ 63 - 2 ^ 63) mod 2 ^ 64"
    by (rule mod_diff_left_eq)
  finally show ?thesis by simp
qed

lemma wrap64_cong: "a mod 2 ^ 64 = b mod 2 ^ 64 \<Longrightarrow> wrap64 a = wrap64 b"
proof -
  assume "a mod 2 ^ 64 = b mod 2 ^ 64"
  then have "(a + 2 ^ 63) mod 2 ^ 64 = (b + 2 ^ 63) mod 2 ^ 64"
    by (metis mod_add_left_eq)
  then show ?thesis by (simp add: wrap64_def)
qed

lemma wrap64_id: "- (2 ^ 63) \<le> x \<Longrightarrow> x < 2 ^ 63 \<Longrightarrow> wrap64 x = x"
  by (simp add: wrap64_def)

lemma hashStep_wrap64: "hashStep c (wrap64 h) = wrap64 (h * 33 + int c)"
proof -
  have "(wrap64 (wrap64 (wrap64 h * 2 ^ 5) + wrap64 h) + int c) mod 2 ^ 64 =
        (wrap64 (wrap64 h * 2 ^ 5) + wrap64 h + int c) mod 2 ^ 64"
    by (metis wrap64_mod mod_add_left_eq)
  also have "\<dots> = (wrap64 h * 2 ^ 5 + wrap64 h + int c) mod 2 ^ 64"
    by (metis wrap64_mod mod_add_left_eq add.assoc)
  also have "\<dots> = (wrap64 h * 33 + int c) mod 2 ^ 64"
    by (simp add: algebra_simps)
  also have "\<dots> = (h * 33 + int c) mod 2 ^ 64"
    by (metis wrap64_mod mod_add_left_eq mod_mult_left_eq)
  finally show ?thesis
    unfolding hashStep_def add64_def by (rule wrap64_cong)
qed

lemma fold_hashStep: "fold hashStep cs (wrap64 h) = wrap64 (fold (\<lambda>c h. h * 33 + int c) cs h)"
  by (induction cs arbitrary: h) (simp_all add: hashStep_wrap64)

lemma hash_loop: "fold hashStep cs 5381 = wrap64 (djb2 cs)"
proof -
  have "wrap64 5381 = 5381" by (simp add: wrap64_def)
  with fold_hashStep [of cs 5381] show ?thesis by (simp add: djb2_def)
qed

lemma fold_mod:
  "fold (\<lambda>c h. (h * 33 + int c) mod m) cs (h mod m) =
   fold (\<lambda>c h. h * 33 + int c) cs h mod m"
proof (induction cs arbitrary: h)
  case Nil
  show ?case by simp
next
  case (Cons c cs)
  have "(h mod m * 33 + int c) mod m = (h * 33 + int c) mod m"
    by (metis mod_add_left_eq mod_mult_left_eq)
  then show ?case by (simp add: Cons.IH)
qed

lemma specHash32_mod: "specHash32 s = djb2 (runes s) mod 2 ^ 32"
proof -
  have "(5381::int) mod 2 ^ 32 = 5381" by simp
  with fold_mod [of "2 ^ 32" "runes s" 5381] show ?thesis
    by (simp only: specHash32_def djb2_def)
qed

lemma fold_djb2_nonneg: "0 \<le> h \<Longrightarrow> 0 \<le> fold (\<lambda>c h. h * 33 + int c) cs h"
  by (induction cs arbitrary: h) simp_all

lemma djb2_nonneg: "0 \<le> djb2 cs"
  by (simp add: djb2_def fold_djb2_nonneg)

lemma runesOfBytes_ascii: "list_all (\<lambda>b. b < 128) bs \<Longrightarrow> runesOfBytes bs = bs"
  by (induction bs) (simp_all add: decodeRune_def)

lemma runes_ascii: "list_all (\<lambda>c. of_char c < (128::nat)) s \<Longrightarrow> runes s = map of_char s"
  unfolding runes_def by (rule runesOfBytes_ascii) (simp add: list_all_iff)

text \<open>
  Claim C3 says that the priority is the 32-bit djb2 hash of the user id followed by the
  operation id, plus the wall time, and that equal priorities are ordered by the
  operation ids. \<open>hashString\<close> computes on 64 bits: for the user \<open>u1\<close> and the id
  \<open>o1\<close>, with wall time 0, the priority is 6385702603, which no 32-bit hash can be;
  the 32-bit hash is 2090735307.
\<close>

theorem priority_is_not_32_bit:
  "calculatePriority exShortIds = 6385702603 \<and> specPriority exShortIds = 2090735307 \<and>
   calculatePriority exShortIds \<noteq> specPriority exShortIds"
  by code_simp

text \<open>
  Claim C3 as amended. The priority is a function of the operation alone: the djb2
  value of the code points of the user id followed by the operation id, wrapped to 64
  bits and negated (with wrap-around) when negative, plus the wall time, wrapped to 64
  bits. On text of bytes below 128 the code points are the bytes. The priority of the
  specification is that djb2 value modulo \<open>2^32\<close> plus the wall time; the priority of
  the code is equal to it whenever the djb2 value is below \<open>2^32\<close> and the wall time
  is at least \<open>-2^63\<close> and below \<open>2^63 - 2^32\<close> (nothing is said about the other
  operations). For two concurrent operations the one of lower priority wins: the other
  is transformed against it. On equal priorities the operation ids are not compared: the
  operation that comes first in the pair is transformed against the other, with its
  tie-break flag set.
\<close>

theorem calculatePriority_value:
  "calculatePriority op =
     wrap64 ((let h = wrap64 (djb2 (runes (UserID op @ ID op)))
              in if h < 0 then wrap64 (- h) else h) + Timestamp op) \<and>
   (list_all (\<lambda>c. of_char c < (128::nat)) (UserID op @ ID op) \<longrightarrow>
      runes (UserID op @ ID op) = map of_char (UserID op @ ID op)) \<and>
   specPriority op = djb2 (runes (UserID op @ ID op)) mod 2 ^ 32 + Timestamp op \<and>
   (djb2 (runes (UserID op @ ID op)) < 2 ^ 32 \<and>
    - (2 ^ 63) \<le> Timestamp op \<and> Timestamp op < 2 ^ 63 - 2 ^ 32 \<longrightarrow>
      calculatePriority op = specPriority op) \<and>
   (\<not> HappensBefore (VectorClock op1) (VectorClock op2) \<and>
    \<not> HappensBefore (VectorClock op2) (VectorClock op1) \<and>
    IsConcurrent (VectorClock op1) (VectorClock op2) \<longrightarrow>
      transformPair r op1 op2 st =
        (if calculatePriority op1 < calculatePriority op2
         then transformTarget r op2 op1 False st
         else transformTarget r op1 op2 True st))"
proof -
  let ?d = "djb2 (runes (UserID op @ ID op))"
  have val: "calculatePriority op =
     wrap64 ((let h = wrap64 ?d in if h < 0 then wrap64 (- h) else h) + Timestamp op)"
    by (simp add: calculatePriority_def hashString_def hash_loop add64_def Let_def)
  have sp: "specPriority op = ?d mod 2 ^ 32 + Timestamp op"
    by (simp add: specPriority_def specHash32_mod)
  have agree: "calculatePriority op = specPriority op"
    if "?d < 2 ^ 32" and "- (2 ^ 63) \<le> Timestamp op" and "Timestamp op < 2 ^ 63 - 2 ^ 32"
  proof -
    have nn: "0 \<le> ?d" by (rule djb2_nonneg)
    with that(1) have w: "wrap64 ?d = ?d" by (intro wrap64_id) simp_all
    from nn that have "wrap64 (?d + Timestamp op) = ?d + Timestamp op"
      by (intro wrap64_id) simp_all
    moreover from nn that(1) have "?d mod 2 ^ 32 = ?d" by simp
    ultimately show ?thesis
      unfolding val sp using nn by (simp add: w Let_def)
  qed
  have tie: "transformPair r op1 op2 st =
        (if calculatePriority op1 < calculatePriority op2
         then transformTarget r op2 op1 False st
         else transformTarget r op1 op2 True st)"
    if "\<not> HappensBefore (VectorClock op1) (VectorClock op2)"
      and "\<not> HappensBefore (VectorClock op2) (VectorClock op1)"
      and "IsConcurrent (VectorClock op1) (VectorClock op2)"
    using that by (simp add: transformPair_def)
  from val sp agree tie runes_ascii [of "UserID op @ ID op"] show ?thesis by blast
qed

theorem calculatePriority_value_witness:
  "list_all (\<lambda>c. of_char c < (128::nat)) (UserID exShortIds @ ID exShortIds) \<and>
   runes (UserID exShortIds @ ID exShortIds) = [117, 49, 111, 49] \<and>
   djb2 [117, 49, 111, 49] = 6385702603 \<and>
   calculatePriority exShortIds = 6385702603 \<and>
   djb2 (runes (UserID exTieSecond @ ID exTieSecond)) < 2 ^ 32 \<and>
   - (2 ^ 63) \<le> Timestamp exTieSecond \<and> Timestamp exTieSecond < 2 ^ 63 - 2 ^ 32 \<and>
   calculatePriority exTieSecond = specPriority exTieSecond \<and>
   specPriority exTieSecond = 5863853 \<and>
   IsConcurrent (VectorClock exTieFirst) (VectorClock exTieSecond) \<and>
   IsConcurrent (VectorClock exTieSecond) (VectorClock exTieFirst) \<and>
   calculatePriority exTieFirst = calculatePriority exTieSecond \<and>
   transformPair exTieFirst exTieFirst exTieSecond (exTieFirst, [exTieSecond]) =
     transformTarget exTieFirst exTieFirst exTieSecond True (exTieFirst, [exTieSecond]) \<and>
   transformPair exTieFirst exTieSecond exTieFirst (exTieFirst, [exTieSecond]) =
     transformTarget exTieFirst exTieSecond exTieFirst True (exTieFirst, [exTieSecond])"
proof -
  have a: "list_all (\<lambda>c. of_char c < (128::nat)) (UserID exShortIds @ ID exShortIds)"
    by code_simp
  have m: "map of_char (UserID exShortIds @ ID exShortIds) = [117, 49, 111, 49 :: nat]"
    by code_simp
  have d: "djb2 [117, 49, 111, 49] = 6385702603"
    by code_simp
  have t: "Timestamp exShortIds = 0"
    by code_simp
  from a calculatePriority_value [of exShortIds]
  have r: "runes (UserID exShortIds @ ID exShortIds) = [117, 49, 111, 49]"
    and v: "calculatePriority exShortIds =
     wrap64 ((let h = wrap64 (djb2 (runes (UserID exShortIds @ ID exShortIds)))
              in if h < 0 then wrap64 (- h) else h) + Timestamp exShortIds)"
    unfolding m by simp_all
  from v have short: "calculatePriority exShortIds = 6385702603"
    unfolding r d t by (simp add: wrap64_def)
  have small: "djb2 (runes (UserID exTieSecond @ ID exTieSecond)) < 2 ^ 32 \<and>
      - (2 ^ 63) \<le> Timestamp exTieSecond \<and> Timestamp exTieSecond < 2 ^ 63 - 2 ^ 32"
    by code_simp
  have sp: "specPriority exTieSecond = 5863853"
    by code_simp
  from small calculatePriority_value [of exTieSecond]
  have agree: "calculatePriority exTieSecond = specPriority exTieSecond"
    by blast
  have conc: "\<not> HappensBefore (VectorClock exTieFirst) (VectorClock exTieSecond) \<and>
      \<not> HappensBefore (VectorClock exTieSecond) (VectorClock exTieFirst) \<and>
      IsConcurrent (VectorClock exTieFirst) (VectorClock exTieSecond) \<and>
      IsConcurrent (VectorClock exTieSecond) (VectorClock exTieFirst)"
    by code_simp
  have eq: "calculatePriority exTieFirst = calculatePriority exTieSecond"
    by code_simp
  from conc calculatePriority_value
    [where ?op1.0 = exTieFirst and ?op2.0 = exTieSecond and r = exTieFirst
       and st = "(exTieFirst, [exTieSecond])"]
  have one: "transformPair exTieFirst exTieFirst exTieSecond (exTieFirst, [exTieSecond]) =
     transformTarget exTieFirst exTieFirst exTieSecond True (exTieFirst, [exTieSecond])"
    unfolding eq by simp
  from conc calculatePriority_value
    [where ?op1.0 = exTieSecond and ?op2.0 = exTieFirst and r = exTieFirst
       and st = "(exTieFirst, [exTieSecond])"]
  have two: "transformPair exTieFirst exTieSecond exTieFirst (exTieFirst, [exTieSecond]) =
     transformTarget exTieFirst exTieSecond exTieFirst True (exTieFirst, [exTieSecond])"
    unfolding eq by simp
  from a r d short small agree sp conc eq one two show ?thesis by simp
qed

subsection \<open>The diamond property of the transforms\<close>

lemma add64_id: "- (2 ^ 63) \<le> a + b \<Longrightarrow> a + b < 2 ^ 63 \<Longrightarrow> add64 a b = a + b"
  by (simp add: add64_def wrap64_id)

lemma sub64_id: "- (2 ^ 63) \<le> a - b \<Longrightarrow> a - b < 2 ^ 63 \<Longrightarrow> sub64 a b = a - b"
  by (simp add: sub64_def wrap64_id)

lemma applyText_insert:
  assumes "Type op = OpInsert" and "0 \<le> Position op" and "Position op \<le> int (length S)"
  shows "applyText S op = insertAt (nat (Position op)) (Content op) S"
  using assms
  by (simp add: applyText_def applyOperationToDocument_def InitializeDocument_def Let_def
      recordApplied_def insertAt_def)

lemma applyText_delete:
  assumes "Type op = OpDelete" and "0 \<le> Position op" and "0 \<le> Length op"
      and "Position op + Length op \<le> int (length S)" and "int (length S) < 2 ^ 63"
  shows "applyText S op = deleteAt (nat (Position op)) (nat (Length op)) S"
proof -
  from assms have a: "add64 (Position op) (Length op) = Position op + Length op"
    by (intro add64_id) simp_all
  from assms(2,3) have n: "nat (Position op + Length op) = nat (Position op) + nat (Length op)"
    by (simp add: nat_add_distrib)
  have del: "applyText S op =
      (if int (length S) \<le> Position op then S
       else if Position op + Length op \<le> Position op then S
       else take (nat (Position op)) S @ drop (nat (Position op + Length op)) S)"
    using assms(1,2,4) OpInsert_neq_OpDelete
    by (simp add: applyText_def applyOperationToDocument_def InitializeDocument_def Let_def
        recordApplied_def a)
  show ?thesis
  proof (cases "int (length S) \<le> Position op \<or> Length op = 0")
    case True
    with assms(3,4) have "Length op = 0" by auto
    with del show ?thesis by (simp add: deleteAt_def)
  next
    case False
    with assms(3) del show ?thesis by (simp add: deleteAt_def n)
  qed
qed

lemma insert_insert:
  "insertAt (length X + length Y + length c1) c2 (insertAt (length X) c1 (X @ Y @ Z)) =
   insertAt (length X) c1 (insertAt (length X + length Y) c2 (X @ Y @ Z))"
  by (simp add: insertAt_def)

lemma delete_after_insert:
  "deleteAt (length X + length Y + length c) (length D) (insertAt (length X) c (X @ Y @ D @ Z)) =
   insertAt (length X) c (deleteAt (length X + length Y) (length D) (X @ Y @ D @ Z))"
  by (simp add: insertAt_def deleteAt_def)

lemma delete_before_insert:
  "deleteAt (length X) (length D) (insertAt (length X + length D + length Y) c (X @ D @ Y @ Z)) =
   insertAt (length X + length Y) c (deleteAt (length X) (length D) (X @ D @ Y @ Z))"
  by (simp add: insertAt_def deleteAt_def)

lemma delete_delete_disjoint:
  "deleteAt (length X + length Y) (length E) (deleteAt (length X) (length D) (X @ D @ Y @ E @ Z)) =
   deleteAt (length X) (length D) (deleteAt (length X + length D + length Y) (length E) (X @ D @ Y @ E @ Z))"
  by (simp add: deleteAt_def)

lemma delete_delete_inner:
  "deleteAt (length X) (length Y + length W) (deleteAt (length X + length Y) (length E) (X @ Y @ E @ W @ Z)) =
   deleteAt (length X) (length Y + length E + length W) (X @ Y @ E @ W @ Z)"
  by (simp add: deleteAt_def)

lemma delete_delete_partial:
  "deleteAt (length X) (length W) (deleteAt (length X) (length Y + length E) (X @ Y @ E @ W @ Z)) =
   deleteAt (length X) (length Y) (deleteAt (length X + length Y) (length E + length W) (X @ Y @ E @ W @ Z))"
  by (simp add: deleteAt_def)

lemma split_at:
  assumes "0 \<le> p" and "p \<le> int (length S)"
  obtains X Z where "S = X @ Z" and "p = int (length X)"
proof
  show "S = take (nat p) S @ drop (nat p) S" by simp
  from assms show "p = int (length (take (nat p) S))" by simp
qed

lemma nat_int_add3: "nat (int a + int b + int c) = a + b + c"
  by simp

lemma tp1_insert_insert_ordered:
  assumes ta: "Type a = OpInsert" and tb: "Type b = OpInsert"
      and va: "validOn S a" and vb: "validOn S b" and f: "fits S a b"
      and le: "Position a \<le> Position b"
      and flags: "Position a = Position b \<longrightarrow> wa \<and> \<not> wb"
  shows "applyText (applyText S a) (inclusionTransform b a wb) =
         applyText (applyText S b) (inclusionTransform a b wa)"
proof -
  from va ta have pa: "0 \<le> Position a" "Position a \<le> int (length S)"
    and la: "Length a = int (length (Content a))"
    by (simp_all add: validOn_def)
  from vb tb have pb: "0 \<le> Position b" "Position b \<le> int (length S)"
    and lb: "Length b = int (length (Content b))"
    by (simp_all add: validOn_def)
  from pa obtain X R where S: "S = X @ R" and x: "Position a = int (length X)"
    by (rule split_at)
  from le pb x S have "0 \<le> Position b - int (length X)" "Position b - int (length X) \<le> int (length R)"
    by simp_all
  then obtain Y Z where R: "R = Y @ Z" and y: "Position b - int (length X) = int (length Y)"
    by (rule split_at)
  from y have y': "Position b = int (length X + length Y)" by simp
  from f have bound: "int (length X + length Y) + int (length (Content a)) < 2 ^ 63"
    by (simp add: fits_def S R)
  have shift: "add64 (Position b) (Length a) = int (length X + length Y + length (Content a))"
    unfolding y' la using bound by (subst add64_id) simp_all
  have b1: "Type (inclusionTransform b a wb) = OpInsert"
    and b2: "Position (inclusionTransform b a wb) = int (length X + length Y + length (Content a))"
    and b3: "Content (inclusionTransform b a wb) = Content b"
    using ta tb le flags shift
    by (auto simp: inclusionTransform_def transformInsertInsert_def)
  have a1: "inclusionTransform a b wa = a"
    using ta tb le flags by (auto simp: inclusionTransform_def transformInsertInsert_def)
  have first: "applyText S a = insertAt (length X) (Content a) S"
    using applyText_insert [OF ta pa] by (simp add: x)
  have second: "applyText S b = insertAt (length X + length Y) (Content b) S"
    using applyText_insert [OF tb pb] by (simp add: y' nat_int_add)
  have lhs: "applyText (applyText S a) (inclusionTransform b a wb) =
      insertAt (length X + length Y + length (Content a)) (Content b)
        (insertAt (length X) (Content a) S)"
    unfolding first
    by (subst applyText_insert [OF b1]) (simp_all add: b2 b3 S R insertAt_def nat_int_add)
  have rhs: "applyText (applyText S b) (inclusionTransform a b wa) =
      insertAt (length X) (Content a) (insertAt (length X + length Y) (Content b) S)"
    unfolding second a1
    by (subst applyText_insert [OF ta]) (simp_all add: x S R insertAt_def)
  show ?thesis
    unfolding lhs rhs unfolding S R by (rule insert_insert)
qed

lemma tp1_insert_insert:
  assumes ta: "Type a = OpInsert" and tb: "Type b = OpInsert"
      and va: "validOn S a" and vb: "validOn S b" and f: "fits S a b"
  shows "applyText (applyText S a) (inclusionTransform b a False) =
         applyText (applyText S b) (inclusionTransform a b True)"
proof (cases "Position a \<le> Position b")
  case True
  then show ?thesis
    by (intro tp1_insert_insert_ordered [OF ta tb va vb f]) simp_all
next
  case False
  from f have f': "fits S b a" by (simp add: fits_def)
  from False have "Position b \<le> Position a" "Position b = Position a \<longrightarrow> False \<and> \<not> True"
    by simp_all
  from tp1_insert_insert_ordered [OF tb ta vb va f' this]
  show ?thesis by simp
qed

lemma tp1_insert_delete:
  assumes ti: "Type i = OpInsert" and td: "Type d = OpDelete"
      and vi: "validOn S i" and vd: "validOn S d" and f: "fits S i d"
      and outside: "\<not> strictlyInside i d"
  shows "applyText (applyText S i) (inclusionTransform d i wd) =
         applyText (applyText S d) (inclusionTransform i d wi)"
proof -
  note neq = OpInsert_neq_OpDelete
  from vi ti have pi: "0 \<le> Position i" "Position i \<le> int (length S)"
    and li: "Length i = int (length (Content i))"
    by (simp_all add: validOn_def)
  from vd td neq have pd: "0 \<le> Position d" "0 \<le> Length d"
    "Position d + Length d \<le> int (length S)"
    by (simp_all add: validOn_def)
  from f have small: "int (length S) + int (length (Content i)) < 2 ^ 63"
    by (simp add: fits_def)
  then have small': "int (length S) < 2 ^ 63" by simp
  have first: "applyText S i = insertAt (nat (Position i)) (Content i) S"
    by (rule applyText_insert [OF ti pi])
  have second: "applyText S d = deleteAt (nat (Position d)) (nat (Length d)) S"
    by (rule applyText_delete [OF td pd small'])
  have end_d: "add64 (Position d) (Length d) = Position d + Length d"
    using pd small' by (intro add64_id) simp_all
  show ?thesis
  proof (cases "Position i \<le> Position d")
    case True
    from pi obtain X R where S: "S = X @ R" and x: "Position i = int (length X)"
      by (rule split_at)
    from True pd x S have "0 \<le> Position d - int (length X)"
      "Position d - int (length X) \<le> int (length R)"
      by simp_all
    then obtain Y R' where R: "R = Y @ R'" and y: "Position d - int (length X) = int (length Y)"
      by (rule split_at)
    from pd x y S R have "0 \<le> Length d" "Length d \<le> int (length R')" by simp_all
    then obtain D Z where R': "R' = D @ Z" and l: "Length d = int (length D)"
      by (rule split_at)
    from y have q: "Position d = int (length X) + int (length Y)" by simp
    have shift: "add64 (Position d) (Length i) =
        int (length X) + int (length Y) + int (length (Content i))"
      unfolding q li using small by (intro add64_id) (simp_all add: S R R')
    have d1: "Type (inclusionTransform d i wd) = OpDelete"
      and d2: "Position (inclusionTransform d i wd) =
        int (length X) + int (length Y) + int (length (Content i))"
      and d3: "Length (inclusionTransform d i wd) = int (length D)"
      using ti td neq True shift l
      by (auto simp: inclusionTransform_def transformDeleteInsert_def)
    have wp: "wrap64 (int (length X)) = int (length X)"
      using small' by (intro wrap64_id) (simp_all add: S)
    have i1: "Type (inclusionTransform i d wi) = OpInsert"
      and i2: "Position (inclusionTransform i d wi) = int (length X)"
      and i3: "Content (inclusionTransform i d wi) = Content i"
      using ti td neq True x q end_d pd wp
      by (auto simp: inclusionTransform_def transformInsertDelete_def sub64_def)
    have lhs: "applyText (applyText S i) (inclusionTransform d i wd) =
        deleteAt (length X + length Y + length (Content i)) (length D)
          (insertAt (length X) (Content i) S)"
      unfolding first x
      using small
      by (subst applyText_delete [OF d1])
         (simp_all add: d2 d3 S R R' insertAt_def nat_int_add nat_int_add3)
    have rhs: "applyText (applyText S d) (inclusionTransform i d wi) =
        insertAt (length X) (Content i) (deleteAt (length X + length Y) (length D) S)"
      unfolding second q l
      by (subst applyText_insert [OF i1])
         (simp_all add: i2 i3 S R R' deleteAt_def nat_int_add nat_int_add3)
    show ?thesis
      unfolding lhs rhs unfolding S R R' by (rule delete_after_insert)
  next
    case False
    with outside ti td have after: "Position d + Length d \<le> Position i"
      by (simp add: strictlyInside_def)
    from pd have "0 \<le> Position d" "Position d \<le> int (length S)" by simp_all
    then obtain X R where S: "S = X @ R" and x: "Position d = int (length X)"
      by (rule split_at)
    from pd x S have "0 \<le> Length d" "Length d \<le> int (length R)" by simp_all
    then obtain D R' where R: "R = D @ R'" and l: "Length d = int (length D)"
      by (rule split_at)
    from after pi x l S R have "0 \<le> Position i - int (length X) - int (length D)"
      "Position i - int (length X) - int (length D) \<le> int (length R')"
      by simp_all
    then obtain Y Z where R': "R' = Y @ Z"
      and y: "Position i - int (length X) - int (length D) = int (length Y)"
      by (rule split_at)
    from y have p: "Position i = int (length X) + int (length D) + int (length Y)" by simp
    have d1: "inclusionTransform d i wd = d"
      using ti td neq False after end_d
      by (auto simp: inclusionTransform_def transformDeleteInsert_def)
    have moved: "sub64 (Position i) (Length d) = int (length X) + int (length Y)"
      unfolding p l using small' by (subst sub64_id) (simp_all add: S R R')
    have i1: "Type (inclusionTransform i d wi) = OpInsert"
      and i2: "Position (inclusionTransform i d wi) = int (length X) + int (length Y)"
      and i3: "Content (inclusionTransform i d wi) = Content i"
      using ti td neq False after end_d moved
      by (auto simp: inclusionTransform_def transformInsertDelete_def)
    have lhs: "applyText (applyText S i) (inclusionTransform d i wd) =
        deleteAt (length X) (length D)
          (insertAt (length X + length D + length Y) (Content i) S)"
      unfolding first d1 p
      using small
      by (subst applyText_delete [OF td])
         (simp_all add: x l S R R' insertAt_def nat_int_add nat_int_add3)
    have rhs: "applyText (applyText S d) (inclusionTransform i d wi) =
        insertAt (length X + length Y) (Content i) (deleteAt (length X) (length D) S)"
      unfolding second x l
      by (subst applyText_insert [OF i1])
         (simp_all add: i2 i3 S R R' deleteAt_def nat_int_add nat_int_add3)
    show ?thesis
      unfolding lhs rhs unfolding S R R' by (rule delete_before_insert)
  qed
qed

lemma tp1_delete_delete_ordered:
  assumes ta: "Type a = OpDelete" and tb: "Type b = OpDelete"
      and va: "validOn S a" and vb: "validOn S b" and small: "int (length S) < 2 ^ 63"
      and le: "Position a \<le> Position b"
      and tie: "Position a = Position b \<longrightarrow> Length b \<le> Length a"
  shows "applyText (applyText S a) (inclusionTransform b a wb) =
         applyText (applyText S b) (inclusionTransform a b wa)"
proof -
  note neq = OpInsert_neq_OpDelete
  from va ta neq have pa: "0 \<le> Position a" "0 \<le> Length a"
    "Position a + Length a \<le> int (length S)"
    by (simp_all add: validOn_def)
  from vb tb neq have pb: "0 \<le> Position b" "0 \<le> Length b"
    "Position b + Length b \<le> int (length S)"
    by (simp_all add: validOn_def)
  have first: "applyText S a = deleteAt (nat (Position a)) (nat (Length a)) S"
    by (rule applyText_delete [OF ta pa small])
  have second: "applyText S b = deleteAt (nat (Position b)) (nat (Length b)) S"
    by (rule applyText_delete [OF tb pb small])
  have end_a: "add64 (Position a) (Length a) = Position a + Length a"
    using pa small by (intro add64_id) simp_all
  have end_b: "add64 (Position b) (Length b) = Position b + Length b"
    using pb small by (intro add64_id) simp_all
  have sub_small: "sub64 u v = u - v"
    if "0 \<le> u" "u \<le> int (length S)" "0 \<le> v" "v \<le> int (length S)" for u v
    using that small by (intro sub64_id) simp_all
  have s1: "sub64 (Position b) (Length a) = Position b - Length a"
    and s2: "sub64 (Position a) (Length b) = Position a - Length b"
    and s3: "sub64 (Length a) (Length b) = Length a - Length b"
    and s4: "sub64 (Position a + Length a) (Position b) = Position a + Length a - Position b"
    using pa pb by (simp_all add: sub_small)
  from pa have "0 \<le> Position a" "Position a \<le> int (length S)" by simp_all
  then obtain X R where S: "S = X @ R" and x: "Position a = int (length X)"
    by (rule split_at)
  consider (disjoint) "Position a + Length a \<le> Position b"
    | (inner) "Position b < Position a + Length a" "Position b + Length b \<le> Position a + Length a"
    | (partial) "Position b < Position a + Length a" "Position a + Length a < Position b + Length b"
    by linarith
  then show ?thesis
  proof cases
    case disjoint
    have b1: "Type (inclusionTransform b a wb) = OpDelete"
      and b2: "Position (inclusionTransform b a wb) = Position b - Length a"
      and b3: "Length (inclusionTransform b a wb) = Length b"
      using ta tb neq disjoint end_a s1
      by (auto simp: inclusionTransform_def transformDeleteDelete_def)
    have a1: "Type (inclusionTransform a b wa) = OpDelete"
      and a2: "Position (inclusionTransform a b wa) = Position a"
      and a3: "Length (inclusionTransform a b wa) = Length a"
      using ta tb neq disjoint end_a end_b s2 pa pb
      by (auto simp: inclusionTransform_def transformDeleteDelete_def)
    from pa x S have "0 \<le> Length a" "Length a \<le> int (length R)" by simp_all
    then obtain D R1 where R: "R = D @ R1" and d: "Length a = int (length D)"
      by (rule split_at)
    from disjoint pb x d S R have "0 \<le> Position b - int (length X) - int (length D)"
      "Position b - int (length X) - int (length D) \<le> int (length R1)"
      by simp_all
    then obtain Y R2 where R1: "R1 = Y @ R2"
      and y: "Position b - int (length X) - int (length D) = int (length Y)"
      by (rule split_at)
    from y have q: "Position b = int (length X) + int (length D) + int (length Y)" by simp
    from pb q S R R1 have "0 \<le> Length b" "Length b \<le> int (length R2)" by simp_all
    then obtain E Z where R2: "R2 = E @ Z" and e: "Length b = int (length E)"
      by (rule split_at)
    have lhs: "applyText (applyText S a) (inclusionTransform b a wb) =
        deleteAt (length X + length Y) (length E) (deleteAt (length X) (length D) S)"
      unfolding first
      using small
      by (subst applyText_delete [OF b1])
         (simp_all add: b2 b3 x d q e S R R1 R2 deleteAt_def nat_int_add)
    have rhs: "applyText (applyText S b) (inclusionTransform a b wa) =
        deleteAt (length X) (length D) (deleteAt (length X + length D + length Y) (length E) S)"
      unfolding second
      using small
      by (subst applyText_delete [OF a1])
         (simp_all add: a2 a3 x d q e S R R1 R2 deleteAt_def nat_int_add nat_int_add3)
    show ?thesis
      unfolding lhs rhs unfolding S R R1 R2 by (rule delete_delete_disjoint)
  next
    case inner
    have b1: "Type (inclusionTransform b a wb) = OpDelete"
      and b2: "Position (inclusionTransform b a wb) = Position a"
      and b3: "Length (inclusionTransform b a wb) = 0"
      using ta tb neq inner le end_a end_b pa pb
      by (auto simp: inclusionTransform_def transformDeleteDelete_def Let_def)
    have a1: "Type (inclusionTransform a b wa) = OpDelete"
      and a2: "Position (inclusionTransform a b wa) = Position a"
      and a3: "Length (inclusionTransform a b wa) = Length a - Length b"
      using ta tb neq inner le end_a end_b pa pb s2 s3
      by (auto simp: inclusionTransform_def transformDeleteDelete_def Let_def)
    from le pb x S have "0 \<le> Position b - int (length X)"
      "Position b - int (length X) \<le> int (length R)"
      by simp_all
    then obtain Y R1 where R: "R = Y @ R1" and y: "Position b - int (length X) = int (length Y)"
      by (rule split_at)
    from y have q: "Position b = int (length X) + int (length Y)" by simp
    from pb q S R have "0 \<le> Length b" "Length b \<le> int (length R1)" by simp_all
    then obtain E R2 where R1: "R1 = E @ R2" and e: "Length b = int (length E)"
      by (rule split_at)
    from inner pa x q e S R R1
    have "0 \<le> Length a - int (length Y) - int (length E)"
      "Length a - int (length Y) - int (length E) \<le> int (length R2)"
      by simp_all
    then obtain W Z where R2: "R2 = W @ Z"
      and w: "Length a - int (length Y) - int (length E) = int (length W)"
      by (rule split_at)
    from w have d: "Length a = int (length Y) + int (length E) + int (length W)" by simp
    have lhs: "applyText (applyText S a) (inclusionTransform b a wb) =
        deleteAt (length X) (length Y + length E + length W) S"
      unfolding first
      using small
      by (subst applyText_delete [OF b1])
         (simp_all add: b2 b3 x d q e S R R1 R2 deleteAt_def nat_int_add nat_int_add3)
    have rhs: "applyText (applyText S b) (inclusionTransform a b wa) =
        deleteAt (length X) (length Y + length W) (deleteAt (length X + length Y) (length E) S)"
      unfolding second
      using small
      by (subst applyText_delete [OF a1])
         (simp_all add: a2 a3 x d q e S R R1 R2 deleteAt_def nat_int_add)
    show ?thesis
      unfolding lhs rhs unfolding S R R1 R2 by (rule delete_delete_inner [symmetric])
  next
    case partial
    with tie pa pb le have lt: "Position a < Position b"
      by (cases "Position a = Position b") auto
    have s5: "sub64 (Length b) (Position a + Length a - Position b) =
        Length b - (Position a + Length a - Position b)"
      and s6: "sub64 (Length a) (Position a + Length a - Position b) = Position b - Position a"
      using pa pb partial lt by (simp_all add: sub_small)
    have b1: "Type (inclusionTransform b a wb) = OpDelete"
      and b2: "Position (inclusionTransform b a wb) = Position a"
      and b3: "Length (inclusionTransform b a wb) = Position b + Length b - (Position a + Length a)"
      using ta tb neq partial lt end_a end_b s4 s5
      by (auto simp: inclusionTransform_def transformDeleteDelete_def Let_def)
    have a1: "Type (inclusionTransform a b wa) = OpDelete"
      and a2: "Position (inclusionTransform a b wa) = Position a"
      and a3: "Length (inclusionTransform a b wa) = Position b - Position a"
      using ta tb neq partial lt end_a end_b s4 s6
      by (auto simp: inclusionTransform_def transformDeleteDelete_def Let_def)
    from lt pb x S have "0 \<le> Position b - int (length X)"
      "Position b - int (length X) \<le> int (length R)"
      by simp_all
    then obtain Y R1 where R: "R = Y @ R1" and y: "Position b - int (length X) = int (length Y)"
      by (rule split_at)
    from y have q: "Position b = int (length X) + int (length Y)" by simp
    from partial pa x q S R have "0 \<le> Length a - int (length Y)"
      "Length a - int (length Y) \<le> int (length R1)"
      by simp_all
    then obtain E R2 where R1: "R1 = E @ R2" and e: "Length a - int (length Y) = int (length E)"
      by (rule split_at)
    from e have d: "Length a = int (length Y) + int (length E)" by simp
    from partial pb x q d S R R1 have "0 \<le> Length b - int (length E)"
      "Length b - int (length E) \<le> int (length R2)"
      by simp_all
    then obtain W Z where R2: "R2 = W @ Z" and w: "Length b - int (length E) = int (length W)"
      by (rule split_at)
    from w have l: "Length b = int (length E) + int (length W)" by simp
    have lhs: "applyText (applyText S a) (inclusionTransform b a wb) =
        deleteAt (length X) (length W) (deleteAt (length X) (length Y + length E) S)"
      unfolding first
      using small
      by (subst applyText_delete [OF b1])
         (simp_all add: b2 b3 x d q l S R R1 R2 deleteAt_def nat_int_add)
    have rhs: "applyText (applyText S b) (inclusionTransform a b wa) =
        deleteAt (length X) (length Y) (deleteAt (length X + length Y) (length E + length W) S)"
      unfolding second
      using small
      by (subst applyText_delete [OF a1])
         (simp_all add: a2 a3 x d q l S R R1 R2 deleteAt_def nat_int_add)
    show ?thesis
      unfolding lhs rhs unfolding S R R1 R2 by (rule delete_delete_partial)
  qed
qed

lemma tp1_delete_delete:
  assumes ta: "Type a = OpDelete" and tb: "Type b = OpDelete"
      and va: "validOn S a" and vb: "validOn S b" and small: "int (length S) < 2 ^ 63"
  shows "applyText (applyText S a) (inclusionTransform b a wb) =
         applyText (applyText S b) (inclusionTransform a b wa)"
proof (cases "Position a < Position b \<or> (Position a = Position b \<and> Length b \<le> Length a)")
  case True
  then show ?thesis
    by (intro tp1_delete_delete_ordered [OF ta tb va vb small]) auto
next
  case False
  then have "Position b \<le> Position a" "Position b = Position a \<longrightarrow> Length a \<le> Length b"
    by auto
  from tp1_delete_delete_ordered [OF tb ta vb va small this, of wa wb]
  show ?thesis by simp
qed

text \<open>
  Outside the one case below the transforms do have the diamond property: for two
  operations valid on the same text, neither of them an insert strictly inside the range
  of the other's delete, both orders end in the same content.
\<close>

lemma tp1_outside_delete_range:
  assumes va: "validOn S a" and vb: "validOn S b" and f: "fits S a b"
      and ab: "\<not> strictlyInside a b" and ba: "\<not> strictlyInside b a"
  shows "applyText (applyText S a) (inclusionTransform b a False) =
         applyText (applyText S b) (inclusionTransform a b True)"
proof -
  from f have f': "fits S b a" and small: "int (length S) < 2 ^ 63"
    by (simp_all add: fits_def)
  from va have ta: "Type a = OpInsert \<or> Type a = OpDelete"
    by (auto simp: validOn_def split: if_splits)
  from vb have tb: "Type b = OpInsert \<or> Type b = OpDelete"
    by (auto simp: validOn_def split: if_splits)
  from ta tb consider
      (ii) "Type a = OpInsert" "Type b = OpInsert"
    | (id) "Type a = OpInsert" "Type b = OpDelete"
    | (di) "Type a = OpDelete" "Type b = OpInsert"
    | (dd) "Type a = OpDelete" "Type b = OpDelete"
    by blast
  then show ?thesis
  proof cases
    case ii
    then show ?thesis by (rule tp1_insert_insert [OF _ _ va vb f])
  next
    case id
    then show ?thesis by (rule tp1_insert_delete [OF _ _ va vb f ab])
  next
    case di
    from tp1_insert_delete [OF di(2) di(1) vb va f' ba, of True False]
    show ?thesis by simp
  next
    case dd
    then show ?thesis by (rule tp1_delete_delete [OF _ _ va vb small])
  qed
qed

lemma exScenario_valid:
  "validOn ''abcdefg'' exInsertX \<and> validOn ''abcdefg'' exDeleteBCDE \<and>
   fits ''abcdefg'' exInsertX exDeleteBCDE \<and> strictlyInside exInsertX exDeleteBCDE"
  by (simp add: validOn_def fits_def strictlyInside_def exInsertX_def exDeleteBCDE_def
      OpInsert_def OpDelete_def)

text \<open>
  Claim C1 (TP1). For two concurrent operations \<open>a\<close> and \<open>b\<close> on a document, applying
  \<open>a\<close> and then \<open>b\<close> transformed against \<open>a\<close> should give the same content as
  applying \<open>b\<close> and then \<open>a\<close> transformed against \<open>b\<close>. The code breaks this when an
  insert falls strictly inside the range of a delete: \<open>transformDeleteInsert\<close> extends
  the delete over the inserted text, while \<open>transformInsertDelete\<close> keeps the insert and
  moves it to the start of the deleted range. On \<open>abcdefg\<close> with \<open>a\<close> the insert of
  \<open>X\<close> at 3 and \<open>b\<close> the delete of four characters at 1, the first order ends in
  \<open>afg\<close> and the second in \<open>aXfg\<close>.
\<close>

theorem insert_inside_delete_diverges:
  "docContent (document (snd (applyOperationToDocument
      (snd (applyOperationToDocument exAbcdefg exInsertX))
      (inclusionTransform exDeleteBCDE exInsertX False)))) = ''afg'' \<and>
   docContent (document (snd (applyOperationToDocument
      (snd (applyOperationToDocument exAbcdefg exDeleteBCDE))
      (inclusionTransform exInsertX exDeleteBCDE True)))) = ''aXfg''"
  by code_simp

end
